theory Spec2Isabelle
  imports Main "HOL-Library.Word"
begin

section \<open>Data model of malloc.c\<close>

text \<open>
  The target is LP64 (the program uses \<open>mmap\<close>): \<open>size_t\<close> and pointers are 64-bit
  words, \<open>sizeof(size_t) = 8\<close> and \<open>sizeof(Block) = 24\<close> (8 bytes of size at offset 0, a
  4-byte enum at offset 8 padded to 8, 8 bytes of pointer at offset 16). Unsigned
  arithmetic and pointer arithmetic wrap modulo \<open>2 ^ 64\<close>, which is what \<open>+\<close> and \<open>-\<close>
  on \<open>64 word\<close> do.
\<close>

type_synonym addr = "64 word"
type_synonym size_t = "64 word"

definition NULL :: addr where
  "NULL = 0"

definition MAP_FAILED :: addr where
  \<comment> \<open>\<open>(void * ) -1\<close>, what \<open>mmap\<close> returns when the mapping cannot be made\<close>
  "MAP_FAILED = - 1"

definition sizeof_Block :: size_t where
  "sizeof_Block = 24"

definition MIN_BLOCK_SIZE :: size_t where
  \<comment> \<open>\<open>#define MIN_BLOCK_SIZE sizeof(size_t)\<close>\<close>
  "MIN_BLOCK_SIZE = 8"

definition PAGE_SIZE :: nat where
  "PAGE_SIZE = 4096"

record Block =
  size_B :: size_t
  free_B :: bool
  next_B :: addr

record Heap =
  head_H :: addr
  size_H :: size_t

text \<open>The one way a call ends without returning, other than by running forever: the
  process is killed for an access to memory it does not have.\<close>

datatype error = SIGSEGV

text \<open>
  The program state:
  \<^item> \<open>mem\<close>, the store of block headers, one cell per address at which a header is read
    or written. Headers are the unit of the store: a header written at one address
    leaves the cells of all other addresses as they are. That is what the machine does
    as long as the headers in use are at least \<open>sizeof(Block)\<close> bytes apart; the theorems
    below that involve a store carry hypotheses under which they are.
  \<^item> \<open>heap\<close>, the global of that name.
  \<^item> \<open>pages\<close>, the first byte and the byte after the last of the pages that \<open>mmap\<close> gave
    to the program (both 0 before it did). The program's pointers are taken to reach this
    memory only: an access outside it kills the process.
  \<^item> \<open>stdout\<close>, the text written to standard output; \<open>stdout_buffer\<close>, the buffer of the
    stream once the C library has asked for one (\<open>NULL\<close> when it was refused); and
    \<open>stdout_bufsize\<close>, the size the library asks for (the block size of the file behind
    the stream: 1024 on a terminal, 4096 on a pipe or a regular file).
\<close>

record State =
  mem :: "addr \<Rightarrow> Block"
  heap :: Heap
  pages :: "nat \<times> nat"
  stdout :: string
  stdout_buffer :: "addr option"
  stdout_bufsize :: size_t

text \<open>Running one step after another, stopping at the first that kills the process.\<close>

definition seq :: "error + 'a \<Rightarrow> ('a \<Rightarrow> error + 'b) \<Rightarrow> error + 'b" where
  "seq m f = (case m of Inl e \<Rightarrow> Inl e | Inr x \<Rightarrow> f x)"

text \<open>\<open>in_pages st p off len\<close>: the \<open>len\<close> bytes at offset \<open>off\<close> from \<open>p\<close> lie in the
  program's pages (and do not run over the end of the address space).\<close>

definition in_pages :: "State \<Rightarrow> addr \<Rightarrow> nat \<Rightarrow> nat \<Rightarrow> bool" where
  "in_pages st p off len =
     (fst (pages st) \<le> unat p + off \<and> unat p + off + len \<le> snd (pages st)
      \<and> unat p + off + len \<le> 2 ^ 64)"

text \<open>The stores \<open>p->size = v\<close>, \<open>p->free = v\<close>, \<open>p->next = v\<close> on the header store.\<close>

definition set_size :: "addr \<Rightarrow> size_t \<Rightarrow> State \<Rightarrow> State" where
  "set_size p v st = st\<lparr>mem := (mem st)(p := (mem st p)\<lparr>size_B := v\<rparr>)\<rparr>"

definition set_free :: "addr \<Rightarrow> bool \<Rightarrow> State \<Rightarrow> State" where
  "set_free p v st = st\<lparr>mem := (mem st)(p := (mem st p)\<lparr>free_B := v\<rparr>)\<rparr>"

definition set_next :: "addr \<Rightarrow> addr \<Rightarrow> State \<Rightarrow> State" where
  "set_next p v st = st\<lparr>mem := (mem st)(p := (mem st p)\<lparr>next_B := v\<rparr>)\<rparr>"

text \<open>The field accesses as the machine makes them: \<open>size\<close> is the 8 bytes at offset 0,
  \<open>free\<close> the 4 bytes at offset 8, \<open>next\<close> the 8 bytes at offset 16.\<close>

definition load_size :: "addr \<Rightarrow> State \<Rightarrow> error + size_t" where
  "load_size p st = (if in_pages st p 0 8 then Inr (size_B (mem st p)) else Inl SIGSEGV)"

definition load_free :: "addr \<Rightarrow> State \<Rightarrow> error + bool" where
  "load_free p st = (if in_pages st p 8 4 then Inr (free_B (mem st p)) else Inl SIGSEGV)"

definition load_next :: "addr \<Rightarrow> State \<Rightarrow> error + addr" where
  "load_next p st = (if in_pages st p 16 8 then Inr (next_B (mem st p)) else Inl SIGSEGV)"

definition store_size :: "addr \<Rightarrow> size_t \<Rightarrow> State \<Rightarrow> error + State" where
  "store_size p v st = (if in_pages st p 0 8 then Inr (set_size p v st) else Inl SIGSEGV)"

definition store_free :: "addr \<Rightarrow> bool \<Rightarrow> State \<Rightarrow> error + State" where
  "store_free p v st = (if in_pages st p 8 4 then Inr (set_free p v st) else Inl SIGSEGV)"

definition store_next :: "addr \<Rightarrow> addr \<Rightarrow> State \<Rightarrow> error + State" where
  "store_next p v st = (if in_pages st p 16 8 then Inr (set_next p v st) else Inl SIGSEGV)"

section \<open>The operations\<close>

text \<open>
  \<open>mmap(0, len, PROT_READ | PROT_WRITE, MAP_PRIVATE | MAP_ANON, -1, 0)\<close>. The kernel's
  choice \<open>os\<close> is an input of the model. The call succeeds when the length is not 0 (a
  length of 0 is refused with \<open>EINVAL\<close>) and \<open>os\<close> is the address of a mapping: not
  \<open>NULL\<close>, page-aligned, the region ending inside the address space. Then the program has
  the pages from \<open>os\<close> up to the end of the page of the last byte. Every other \<open>os\<close>
  stands for a refusal: the result is \<open>MAP_FAILED\<close> and no page is gained.
\<close>

definition mapped :: "addr \<Rightarrow> size_t \<Rightarrow> bool" where
  "mapped memory sz =
     (memory \<noteq> NULL \<and> PAGE_SIZE dvd unat memory \<and> unat memory + unat sz < 2 ^ 64)"

definition round_up :: "nat \<Rightarrow> nat" where
  "round_up n = ((n + PAGE_SIZE - 1) div PAGE_SIZE) * PAGE_SIZE"

definition mmap :: "addr \<Rightarrow> size_t \<Rightarrow> State \<Rightarrow> addr \<times> State" where
  "mmap os len st =
     (if len \<noteq> 0 \<and> mapped os len
      then (os, st\<lparr>pages := (unat os, unat os + round_up (unat len))\<rparr>)
      else (MAP_FAILED, st))"

text \<open>
  \<open>init_heap\<close>. The source does not compare the result of \<open>mmap\<close> with \<open>MAP_FAILED\<close>:
  it stores through it. The heap is initialised once.
\<close>

definition init_heap :: "addr \<Rightarrow> size_t \<Rightarrow> State \<Rightarrow> error + State" where
  "init_heap os sz st =
    (let (memory, st0) = mmap os sz st;
         st1 = st0\<lparr>heap := (heap st0)\<lparr>head_H := memory\<rparr>\<rparr>;
         st2 = st1\<lparr>heap := (heap st1)\<lparr>size_H := sz\<rparr>\<rparr>;
         first = head_H (heap st2)
     in seq (store_size first (sz - sizeof_Block) st2) (\<lambda>st3.
        seq (store_free first True st3) (\<lambda>st4.
        store_next first NULL st4)))"

text \<open>
  \<open>find_free_block\<close>. The condition \<open>curr->free && curr->size >= size\<close> reads \<open>size\<close>
  only when \<open>free\<close> is set. The \<open>while\<close> loop follows \<open>next\<close> links and need not end (a
  cyclic list), so it is a partial function: \<open>None\<close> is "runs forever". The state is
  passed through, as the loop only reads it.
\<close>

definition fits :: "size_t \<Rightarrow> addr \<Rightarrow> State \<Rightarrow> error + bool" where
  "fits sz cur st =
     seq (load_free cur st) (\<lambda>fr.
       if fr then seq (load_size cur st) (\<lambda>s. Inr (sz \<le> s)) else Inr False)"

partial_function (option) find_loop :: "size_t \<Rightarrow> addr \<Rightarrow> State \<Rightarrow> (error + addr \<times> State) option" where
  "find_loop sz cur st =
    (if cur \<noteq> NULL then
       (case fits sz cur st of
          Inl e \<Rightarrow> Some (Inl e)
        | Inr ok \<Rightarrow>
            if ok then Some (Inr (cur, st))
            else (case load_next cur st of
                    Inl e \<Rightarrow> Some (Inl e)
                  | Inr nx \<Rightarrow> find_loop sz nx st))
     else Some (Inr (NULL, st)))"

definition find_free_block :: "size_t \<Rightarrow> State \<Rightarrow> (error + addr \<times> State) option" where
  "find_free_block sz st = find_loop sz (head_H (heap st)) st"

definition split_block :: "addr \<Rightarrow> size_t \<Rightarrow> State \<Rightarrow> error + State" where
  "split_block block left_size st =
    (let new_block = block + sizeof_Block + left_size
     in seq (load_size block st) (\<lambda>s.
        seq (store_size new_block (s - sizeof_Block - left_size) st) (\<lambda>st1.
        seq (store_free new_block True st1) (\<lambda>st2.
        seq (store_size block left_size st2) (\<lambda>st3.
        seq (load_next block st3) (\<lambda>nx.
        seq (store_next new_block nx st3) (\<lambda>st4.
        store_next block new_block st4)))))))"

definition malloc :: "size_t \<Rightarrow> State \<Rightarrow> (error + addr \<times> State) option" where
  "malloc sz st =
    (case find_free_block sz st of
       None \<Rightarrow> None
     | Some (Inl e) \<Rightarrow> Some (Inl e)
     | Some (Inr (block, st1)) \<Rightarrow>
         if block = NULL then Some (Inr (NULL, st1))
         else Some
           (seq (load_size block st1) (\<lambda>s.
            seq (if sz + sizeof_Block + MIN_BLOCK_SIZE \<le> s
                 then split_block block sz st1 else Inr st1) (\<lambda>st2.
            seq (store_free block False st2) (\<lambda>st3.
            Inr (block + sizeof_Block, st3))))))"

text \<open>\<open>printf\<close>'s \<open>%zX\<close>: upper-case hexadecimal, no leading zeros, at least one digit.\<close>

definition hex_digit :: "nat \<Rightarrow> char" where
  "hex_digit d = ''0123456789ABCDEF'' ! d"

function hexX :: "nat \<Rightarrow> string" where
  "hexX n = (if n < 16 then [hex_digit n] else hexX (n div 16) @ [hex_digit (n mod 16)])"
  by pat_completeness auto
termination
  by (relation "measure id") auto

declare hexX.simps [simp del]

definition format_line :: "bool \<Rightarrow> addr \<Rightarrow> size_t \<Rightarrow> string" where
  \<comment> \<open>\<open>"%s start: 0x%zX, size: 0x%zX\n"\<close>\<close>
  "format_line fr a sz =
     (if fr then ''FREE'' else ''BUSY'') @ '' start: 0x'' @ hexX (unat a)
       @ '', size: 0x'' @ hexX (unat sz) @ [CHR 0x0A]"

text \<open>
  \<open>printf\<close>, of the C library, with its arguments already formatted. The program defines
  \<open>malloc\<close> with external linkage, so the library's calls of \<open>malloc\<close> are calls of the
  program's. The first output on a stream asks for the stream's buffer with
  \<open>malloc(stdout_bufsize)\<close>; a refusal (\<open>NULL\<close>) leaves the stream unbuffered, and the
  question is not asked again. The text itself goes to the buffer, which is payload, and
  from there to the output.
\<close>

definition printf :: "string \<Rightarrow> State \<Rightarrow> (error + State) option" where
  "printf txt st =
    (case stdout_buffer st of
       Some buf \<Rightarrow> Some (Inr (st\<lparr>stdout := stdout st @ txt\<rparr>))
     | None \<Rightarrow>
         (case malloc (stdout_bufsize st) st of
            None \<Rightarrow> None
          | Some (Inl e) \<Rightarrow> Some (Inl e)
          | Some (Inr (buf, st1)) \<Rightarrow>
              Some (Inr (st1\<lparr>stdout_buffer := Some buf, stdout := stdout st1 @ txt\<rparr>))))"

text \<open>
  \<open>print_heap\<close>. The arguments of \<open>printf\<close> are read from the header before the call;
  \<open>curr->next\<close> is read after it.
\<close>

partial_function (option) print_loop :: "addr \<Rightarrow> State \<Rightarrow> (error + State) option" where
  "print_loop cur st =
    (if cur \<noteq> NULL then
       (case seq (load_free cur st) (\<lambda>fr. seq (load_size cur st) (\<lambda>s. Inr (format_line fr cur s))) of
          Inl e \<Rightarrow> Some (Inl e)
        | Inr txt \<Rightarrow>
            (case printf txt st of
               None \<Rightarrow> None
             | Some (Inl e) \<Rightarrow> Some (Inl e)
             | Some (Inr st1) \<Rightarrow>
                 (case load_next cur st1 of
                    Inl e \<Rightarrow> Some (Inl e)
                  | Inr nx \<Rightarrow> print_loop nx st1)))
     else Some (Inr st))"

definition print_heap :: "State \<Rightarrow> (error + State) option" where
  \<comment> \<open>called as \<open>print_heap(&heap)\<close>: the argument is the global heap\<close>
  "print_heap st = print_loop (head_H (heap st)) st"

text \<open>A sequence of allocation requests, one after the other; the pointers handed out
  are collected.\<close>

fun mallocs :: "size_t list \<Rightarrow> State \<Rightarrow> (error + addr list \<times> State) option" where
  "mallocs [] st = Some (Inr ([], st))"
| "mallocs (sz # szs) st =
    (case malloc sz st of
       None \<Rightarrow> None
     | Some (Inl e) \<Rightarrow> Some (Inl e)
     | Some (Inr (p, st1)) \<Rightarrow>
         (case mallocs szs st1 of
            None \<Rightarrow> None
          | Some (Inl e) \<Rightarrow> Some (Inl e)
          | Some (Inr (ps, st2)) \<Rightarrow> Some (Inr (p # ps, st2))))"

section \<open>States used as examples\<close>

text \<open>
  The state in which \<open>main\<close> starts: globals are zero, no page has been obtained,
  nothing has been printed, and standard output, here a pipe or a regular file, has no
  buffer yet. Memory obtained from an anonymous mapping reads as zero.
\<close>

definition initial_state :: State where
  "initial_state =
     \<lparr>mem = (\<lambda>_. \<lparr>size_B = 0, free_B = False, next_B = NULL\<rparr>),
      heap = \<lparr>head_H = NULL, size_H = 0\<rparr>,
      pages = (0, 0),
      stdout = [],
      stdout_buffer = None,
      stdout_bufsize = 0x1000\<rparr>"

text \<open>The state after \<open>init_heap(0x10000)\<close>, as \<open>main\<close> calls it, when the kernel puts
  the mapping at \<open>0x1000\<close>.\<close>

definition fresh_heap :: State where
  "fresh_heap = initial_state
     \<lparr>mem := (mem initial_state)
        (0x1000 := \<lparr>size_B = 0xFFE8, free_B = True, next_B = NULL\<rparr>),
      heap := \<lparr>head_H = 0x1000, size_H = 0x10000\<rparr>,
      pages := (0x1000, 0x11000)\<rparr>"

text \<open>That state after two calls \<open>malloc(4)\<close>: two busy blocks of 4 bytes and the free
  rest.\<close>

definition after_two :: State where
  "after_two = fresh_heap
     \<lparr>mem := (mem initial_state)
        (0x1000 := \<lparr>size_B = 4, free_B = False, next_B = 0x101C\<rparr>,
         0x101C := \<lparr>size_B = 4, free_B = False, next_B = 0x1038\<rparr>,
         0x1038 := \<lparr>size_B = 0xFFB0, free_B = True, next_B = NULL\<rparr>)\<rparr>"

text \<open>The state \<open>fresh_heap\<close> after one heap walk: the first \<open>printf\<close> has taken the
  buffer of standard output, 4096 bytes, from the heap, and two lines have been
  printed.\<close>

definition after_walk :: State where
  "after_walk = fresh_heap
     \<lparr>mem := (mem initial_state)
        (0x1000 := \<lparr>size_B = 0x1000, free_B = False, next_B = 0x2018\<rparr>,
         0x2018 := \<lparr>size_B = 0xEFD0, free_B = True, next_B = NULL\<rparr>),
      stdout := ''FREE start: 0x1000, size: 0xFFE8'' @ [CHR 0x0A]
              @ ''FREE start: 0x2018, size: 0xEFD0'' @ [CHR 0x0A],
      stdout_buffer := Some 0x1018\<rparr>"

text \<open>
  A heap of four blocks whose free blocks have, in address order, the sizes 16, 4096
  and 32. The busy block between the first two, of 1024 bytes, is the buffer of standard
  output, here a terminal, on which an empty line has been printed.
\<close>

definition example_heap :: State where
  "example_heap =
     \<lparr>mem = (\<lambda>_. \<lparr>size_B = 0, free_B = False, next_B = NULL\<rparr>)
        (0x1000 := \<lparr>size_B = 16, free_B = True, next_B = 0x1028\<rparr>,
         0x1028 := \<lparr>size_B = 1024, free_B = False, next_B = 0x1440\<rparr>,
         0x1440 := \<lparr>size_B = 4096, free_B = True, next_B = 0x2458\<rparr>,
         0x2458 := \<lparr>size_B = 32, free_B = True, next_B = NULL\<rparr>),
      heap = \<lparr>head_H = 0x1000, size_H = 0x1490\<rparr>,
      pages = (0x1000, 0x3000),
      stdout = [CHR 0x0A],
      stdout_buffer = Some 0x1040,
      stdout_bufsize = 0x400\<rparr>"

text \<open>The state after \<open>init_heap(n)\<close> for a size \<open>n\<close> from 1 to 23, when the kernel puts
  the mapping, one page, at \<open>0x1000\<close>: the size of the only block is \<open>n - 24\<close>, wrapped
  around.\<close>

definition tiny_heap :: "size_t \<Rightarrow> State" where
  "tiny_heap n = initial_state
     \<lparr>mem := (mem initial_state)
        (0x1000 := \<lparr>size_B = n - sizeof_Block, free_B = True, next_B = NULL\<rparr>),
      heap := \<lparr>head_H = 0x1000, size_H = n\<rparr>,
      pages := (0x1000, 0x2000)\<rparr>"

text \<open>The state \<open>tiny_heap 10\<close> after \<open>malloc(2 ^ 64 - 24)\<close>: the only block is busy and
  is its own successor.\<close>

definition cyclic_heap :: State where
  "cyclic_heap = (tiny_heap 10)
     \<lparr>mem := (mem initial_state)
        (0x1000 := \<lparr>size_B = 0xFFFFFFFFFFFFFFE8, free_B = False, next_B = 0x1000\<rparr>)\<rparr>"

text \<open>The state \<open>tiny_heap 10\<close> after \<open>malloc(4000)\<close>, \<open>malloc(0)\<close> and \<open>malloc(0)\<close>: three
  busy blocks, and a free block whose header ends with the page.\<close>

definition edge_heap :: State where
  "edge_heap = (tiny_heap 10)
     \<lparr>mem := (mem initial_state)
        (0x1000 := \<lparr>size_B = 4000, free_B = False, next_B = 0x1FB8\<rparr>,
         0x1FB8 := \<lparr>size_B = 0, free_B = False, next_B = 0x1FD0\<rparr>,
         0x1FD0 := \<lparr>size_B = 0, free_B = False, next_B = 0x1FE8\<rparr>,
         0x1FE8 := \<lparr>size_B = 0xFFFFFFFFFFFFF00A, free_B = True, next_B = NULL\<rparr>)\<rparr>"

section \<open>The block list as a list of addresses\<close>

text \<open>
  \<open>block_list m p xs\<close>: following \<open>next\<close> from \<open>p\<close> visits exactly the headers at the
  addresses \<open>xs\<close>, in this order, and then reaches \<open>NULL\<close>.
\<close>

fun block_list :: "(addr \<Rightarrow> Block) \<Rightarrow> addr \<Rightarrow> addr list \<Rightarrow> bool" where
  "block_list m p [] = (p = NULL)"
| "block_list m p (x # xs) = (p = x \<and> x \<noteq> NULL \<and> block_list m (next_B (m x)) xs)"

text \<open>\<open>hdr_ok st p\<close>: the 24 bytes of the header at \<open>p\<close> lie in the program's pages.\<close>

definition hdr_ok :: "State \<Rightarrow> addr \<Rightarrow> bool" where
  "hdr_ok st p = in_pages st p 0 24"

text \<open>
  A heap state in the widest sense: \<open>xs\<close> is the block list from \<open>head\<close>, it ends in
  \<open>NULL\<close>, and its headers lie in the program's pages (where every header that the
  program has written lies).
\<close>

definition heap_list :: "State \<Rightarrow> addr list \<Rightarrow> bool" where
  "heap_list st xs = (block_list (mem st) (head_H (heap st)) xs \<and> list_all (hdr_ok st) xs)"

text \<open>
  \<open>tiles m lo xs hi\<close>: the blocks at \<open>xs\<close>, header and payload, lie one after the other
  from byte \<open>lo\<close> to byte \<open>hi\<close> of the address space, without gap or overlap. Positions
  are natural numbers, so nothing wraps.
\<close>

fun tiles :: "(addr \<Rightarrow> Block) \<Rightarrow> nat \<Rightarrow> addr list \<Rightarrow> nat \<Rightarrow> bool" where
  "tiles m lo [] hi = (lo = hi)"
| "tiles m lo (x # xs) hi =
     (unat x = lo \<and> tiles m (lo + unat sizeof_Block + unat (size_B (m x))) xs hi)"

text \<open>The first block of the list that is free and large enough, \<open>NULL\<close> if there is none.\<close>

definition first_fit :: "(addr \<Rightarrow> Block) \<Rightarrow> size_t \<Rightarrow> addr list \<Rightarrow> addr" where
  "first_fit m sz xs =
     (case List.find (\<lambda>a. free_B (m a) \<and> sz \<le> size_B (m a)) xs of
        None \<Rightarrow> NULL | Some a \<Rightarrow> a)"

text \<open>
  A well-formed heap: the global \<open>heap\<close> describes a mapped region that lies in the
  program's pages, \<open>xs\<close> is the block list from \<open>head\<close>, and the blocks tile the region
  from its first byte to its last.
\<close>

definition heap_ok :: "State \<Rightarrow> addr list \<Rightarrow> bool" where
  "heap_ok st xs =
     (mapped (head_H (heap st)) (size_H (heap st)) \<and>
      fst (pages st) \<le> unat (head_H (heap st)) \<and>
      unat (head_H (heap st)) + unat (size_H (heap st)) \<le> snd (pages st) \<and>
      block_list (mem st) (head_H (heap st)) xs \<and>
      tiles (mem st) (unat (head_H (heap st))) xs
        (unat (head_H (heap st)) + unat (size_H (heap st))))"

text \<open>\<open>block_in_pages st b\<close>: the block at \<open>b\<close>, header and payload, lies in the program's
  pages.\<close>

definition block_in_pages :: "State \<Rightarrow> addr \<Rightarrow> bool" where
  "block_in_pages st b =
     (fst (pages st) \<le> unat b \<and>
      unat b + unat sizeof_Block + unat (size_B (mem st b)) \<le> snd (pages st) \<and>
      unat b + unat sizeof_Block + unat (size_B (mem st b)) \<le> 2 ^ 64)"

text \<open>
  \<open>buffer_clear st xs\<close>: standard output has its buffer (or was refused one), and the
  buffer contains no byte of a header of \<open>xs\<close>, so that text put into it changes no
  header.
\<close>

definition buffer_clear :: "State \<Rightarrow> addr list \<Rightarrow> bool" where
  "buffer_clear st xs =
     (case stdout_buffer st of
        None \<Rightarrow> False
      | Some buf \<Rightarrow>
          buf = NULL \<or>
          list_all (\<lambda>x. unat x + unat sizeof_Block \<le> unat buf
                       \<or> unat buf + unat (stdout_bufsize st) \<le> unat x) xs)"

text \<open>The address list after the block at \<open>b\<close> got a right neighbour at \<open>nb\<close>.\<close>

fun ins_after :: "addr \<Rightarrow> addr \<Rightarrow> addr list \<Rightarrow> addr list" where
  "ins_after b nb [] = []"
| "ins_after b nb (x # xs) = (if x = b then x # nb # xs else x # ins_after b nb xs)"

section \<open>Steps, loads and stores\<close>

lemma seq_simps [simp]: "seq (Inr x) f = f x" "seq (Inl e) f = Inl e"
  by (simp_all add: seq_def)

lemma set_frame [simp]:
  "heap (set_size p v st) = heap st" "heap (set_free p b st) = heap st"
  "heap (set_next p q st) = heap st"
  "pages (set_size p v st) = pages st" "pages (set_free p b st) = pages st"
  "pages (set_next p q st) = pages st"
  "stdout (set_size p v st) = stdout st" "stdout (set_free p b st) = stdout st"
  "stdout (set_next p q st) = stdout st"
  "stdout_buffer (set_size p v st) = stdout_buffer st"
  "stdout_buffer (set_free p b st) = stdout_buffer st"
  "stdout_buffer (set_next p q st) = stdout_buffer st"
  "stdout_bufsize (set_size p v st) = stdout_bufsize st"
  "stdout_bufsize (set_free p b st) = stdout_bufsize st"
  "stdout_bufsize (set_next p q st) = stdout_bufsize st"
  by (simp_all add: set_size_def set_free_def set_next_def)

lemma in_pages_set [simp]:
  "in_pages (set_size p v st) q off len = in_pages st q off len"
  "in_pages (set_free p b st) q off len = in_pages st q off len"
  "in_pages (set_next p r st) q off len = in_pages st q off len"
  by (simp_all add: in_pages_def)

lemma in_pages_mem [simp]: "in_pages (st\<lparr>mem := m\<rparr>) q off len = in_pages st q off len"
  by (simp add: in_pages_def)

lemma hdr_ok_fields:
  "hdr_ok st p \<Longrightarrow> in_pages st p 0 8 \<and> in_pages st p 8 4 \<and> in_pages st p 16 8"
  by (simp add: hdr_ok_def in_pages_def)

lemma hdr_ok_set [simp]:
  "hdr_ok (set_size p v st) q = hdr_ok st q" "hdr_ok (set_free p b st) q = hdr_ok st q"
  "hdr_ok (set_next p r st) q = hdr_ok st q" "hdr_ok (st\<lparr>mem := m\<rparr>) q = hdr_ok st q"
  by (simp_all add: hdr_ok_def)

lemma load_ok:
  assumes "hdr_ok st p"
  shows "load_size p st = Inr (size_B (mem st p))" "load_free p st = Inr (free_B (mem st p))"
    "load_next p st = Inr (next_B (mem st p))"
  using hdr_ok_fields [OF assms] by (simp_all add: load_size_def load_free_def load_next_def)

lemma store_ok:
  assumes "hdr_ok st p"
  shows "store_size p v st = Inr (set_size p v st)" "store_free p b st = Inr (set_free p b st)"
    "store_next p q st = Inr (set_next p q st)"
  using hdr_ok_fields [OF assms] by (simp_all add: store_size_def store_free_def store_next_def)

lemma fits_ok:
  "hdr_ok st p \<Longrightarrow> fits sz p st = Inr (free_B (mem st p) \<and> sz \<le> size_B (mem st p))"
  by (simp add: fits_def load_ok)

lemma Block_all_upd [simp]:
  "(r::Block)\<lparr>size_B := a, free_B := b, next_B := c\<rparr> = \<lparr>size_B = a, free_B = b, next_B = c\<rparr>"
  by (cases r) simp

lemma Heap_all_upd [simp]:
  "(h::Heap)\<lparr>head_H := a, size_H := b\<rparr> = \<lparr>head_H = a, size_H = b\<rparr>"
  by (cases h) simp

lemma unat_consts [simp]: "unat sizeof_Block = 24" "unat MIN_BLOCK_SIZE = 8"
  by (simp_all add: sizeof_Block_def MIN_BLOCK_SIZE_def)

lemma unat_add64: "unat a + unat b < 2 ^ 64 \<Longrightarrow> unat (a + b :: 64 word) = unat a + unat b"
  using unat_add_lem [of a b] by simp

lemma unat_sub64: "unat b \<le> unat a \<Longrightarrow> unat (a - b :: 64 word) = unat a - unat b"
  by (simp add: unat_sub word_le_nat_alt)

section \<open>Lists of blocks\<close>

lemma tiles_lower: "tiles m lo xs hi \<Longrightarrow> x \<in> set xs \<Longrightarrow> lo \<le> unat x"
proof (induction xs arbitrary: lo)
  case Nil
  then show ?case by simp
next
  case (Cons a xs)
  show ?case
  proof (cases "x = a")
    case True
    with Cons.prems show ?thesis by simp
  next
    case False
    with Cons.prems have "x \<in> set xs" and "tiles m (lo + 24 + unat (size_B (m a))) xs hi"
      by simp_all
    from Cons.IH [OF this(2) this(1)] show ?thesis by simp
  qed
qed

lemma tiles_le: "tiles m lo xs hi \<Longrightarrow> lo \<le> hi"
proof (induction xs arbitrary: lo)
  case Nil
  then show ?case by simp
next
  case (Cons a xs)
  then have "tiles m (lo + 24 + unat (size_B (m a))) xs hi" by simp
  from Cons.IH [OF this] show ?case by simp
qed

lemma tiles_upper:
  "tiles m lo xs hi \<Longrightarrow> x \<in> set xs \<Longrightarrow> unat x + 24 + unat (size_B (m x)) \<le> hi"
proof (induction xs arbitrary: lo)
  case Nil
  then show ?case by simp
next
  case (Cons a xs)
  from Cons.prems have t: "tiles m (lo + 24 + unat (size_B (m a))) xs hi" and a: "unat a = lo"
    by simp_all
  show ?case
  proof (cases "x = a")
    case True
    with tiles_le [OF t] a show ?thesis by simp
  next
    case False
    with Cons.prems have "x \<in> set xs" by simp
    from Cons.IH [OF t this] show ?thesis .
  qed
qed

lemma tiles_increasing: "tiles m lo xs hi \<Longrightarrow> sorted_wrt (<) xs"
proof (induction xs arbitrary: lo)
  case Nil
  then show ?case by simp
next
  case (Cons x xs)
  then have tl: "tiles m (lo + 24 + unat (size_B (m x))) xs hi" and ux: "unat x = lo" by simp_all
  have "\<forall>y\<in>set xs. x < y"
  proof
    fix y assume "y \<in> set xs"
    from tiles_lower [OF tl this] ux show "x < y" by (simp add: word_less_nat_alt)
  qed
  with Cons.IH [OF tl] show ?case by simp
qed

lemma block_list_frame:
  "\<forall>x\<in>set xs. next_B (m' x) = next_B (m x) \<Longrightarrow> block_list m' p xs = block_list m p xs"
  by (induction xs arbitrary: p) auto

lemma tiles_frame:
  "\<forall>x\<in>set xs. size_B (m' x) = size_B (m x) \<Longrightarrow> tiles m' lo xs hi = tiles m lo xs hi"
  by (induction xs arbitrary: lo) auto

lemma split_lists:
  assumes "block_list m p xs" and "tiles m lo xs hi" and "b \<in> set xs"
    and nb: "unat nb = unat b + 24 + unat l"
    and sz: "unat l + 24 + unat s' = unat (size_B (m b))"
    and m': "m' = m(nb := \<lparr>size_B = s', free_B = f1, next_B = next_B (m b)\<rparr>,
                    b := \<lparr>size_B = l, free_B = f2, next_B = nb\<rparr>)"
  shows "block_list m' p (ins_after b nb xs) \<and> tiles m' lo (ins_after b nb xs) hi"
  using assms(1-3)
proof (induction xs arbitrary: p lo)
  case Nil
  then show ?case by simp
next
  case (Cons x xs)
  from Cons.prems have px: "p = x" "x \<noteq> NULL" and bl: "block_list m (next_B (m x)) xs"
    and ux: "unat x = lo" and tl: "tiles m (lo + 24 + unat (size_B (m x))) xs hi"
    by simp_all
  have bnb: "b \<noteq> nb" using nb by auto
  show ?case
  proof (cases "x = b")
    case True
    have after: "\<forall>y\<in>set xs. y \<noteq> b \<and> y \<noteq> nb"
    proof
      fix y assume "y \<in> set xs"
      from tiles_lower [OF tl this] have "lo + 24 + unat (size_B (m x)) \<le> unat y" .
      with True ux nb sz show "y \<noteq> b \<and> y \<noteq> nb" by auto
    qed
    then have same: "\<forall>y\<in>set xs. m' y = m y" by (simp add: m')
    have "nb \<noteq> NULL" using nb by (auto simp: NULL_def)
    moreover have "block_list m' (next_B (m b)) xs"
      using bl True same block_list_frame [of xs m' m] by simp
    moreover have "tiles m' (lo + 24 + unat l + 24 + unat s') xs hi"
    proof -
      have eq: "lo + 24 + unat l + 24 + unat s' = lo + 24 + unat (size_B (m x))"
        using sz True by simp
      have "tiles m' (lo + 24 + unat (size_B (m x))) xs hi"
        using tl same tiles_frame [of xs m' m] by simp
      then show ?thesis by (simp only: eq)
    qed
    moreover have "m' b = \<lparr>size_B = l, free_B = f2, next_B = nb\<rparr>"
      and "m' nb = \<lparr>size_B = s', free_B = f1, next_B = next_B (m b)\<rparr>"
      using bnb by (simp_all add: m')
    ultimately show ?thesis
      using True px ux nb by (simp add: add.assoc)
  next
    case False
    with Cons.prems have bin: "b \<in> set xs" by simp
    from tiles_lower [OF tl bin] ux nb have "x \<noteq> nb" by auto
    with False have mx: "m' x = m x" by (simp add: m')
    from Cons.IH [OF bl tl bin] False px ux mx show ?thesis by simp
  qed
qed

lemma block_list_no_NULL: "block_list m p xs \<Longrightarrow> NULL \<notin> set xs"
  by (induction xs arbitrary: p) auto

lemma block_list_unique: "block_list m p xs \<Longrightarrow> block_list m p ys \<Longrightarrow> xs = ys"
proof (induction xs arbitrary: p ys)
  case Nil
  then show ?case by (cases ys) auto
next
  case (Cons x xs)
  then show ?case by (cases ys) auto
qed

lemma first_fit_NULL:
  "NULL \<notin> set xs \<Longrightarrow> first_fit m sz xs = NULL \<longleftrightarrow> (\<forall>x\<in>set xs. \<not> (free_B (m x) \<and> sz \<le> size_B (m x)))"
  by (induction xs) (auto simp add: first_fit_def)

lemma first_fit_found:
  "first_fit m sz xs \<noteq> NULL \<Longrightarrow>
     first_fit m sz xs \<in> set xs \<and> free_B (m (first_fit m sz xs)) \<and> sz \<le> size_B (m (first_fit m sz xs))"
  by (induction xs) (auto simp add: first_fit_def)

lemma first_fit_split:
  "first_fit m sz xs \<noteq> NULL \<Longrightarrow>
     \<exists>ys zs. xs = ys @ first_fit m sz xs # zs
       \<and> (\<forall>y\<in>set ys. \<not> (free_B (m y) \<and> sz \<le> size_B (m y)))"
proof (induction xs)
  case Nil
  then show ?case by (simp add: first_fit_def)
next
  case (Cons x xs)
  show ?case
  proof (cases "free_B (m x) \<and> sz \<le> size_B (m x)")
    case True
    then have "first_fit m sz (x # xs) = x" by (simp add: first_fit_def)
    then have "x # xs = [] @ first_fit m sz (x # xs) # xs" by simp
    then show ?thesis by fastforce
  next
    case False
    then have eq: "first_fit m sz (x # xs) = first_fit m sz xs" by (auto simp add: first_fit_def)
    with Cons obtain ys zs where "xs = ys @ first_fit m sz xs # zs"
      and "\<forall>y\<in>set ys. \<not> (free_B (m y) \<and> sz \<le> size_B (m y))"
      by auto
    with False eq have "x # xs = (x # ys) @ first_fit m sz (x # xs) # zs"
      and "\<forall>y\<in>set (x # ys). \<not> (free_B (m y) \<and> sz \<le> size_B (m y))"
      by simp_all
    then show ?thesis by blast
  qed
qed

lemma find_conj_filter: "List.find (\<lambda>a. Q a \<and> R a) xs = List.find R (filter Q xs)"
  by (induction xs) auto

lemma first_fit_example:
  assumes "map (\<lambda>a. size_B (m a)) (filter (\<lambda>a. free_B (m a)) xs) = [16, 4096, 32]"
  shows "first_fit m 20 xs = filter (\<lambda>a. free_B (m a)) xs ! 1"
    and "size_B (m (first_fit m 20 xs)) = 4096"
proof -
  from assms obtain a b c where f: "filter (\<lambda>a. free_B (m a)) xs = [a, b, c]"
    and sz: "size_B (m a) = 16" "size_B (m b) = 4096" "size_B (m c) = 32"
    by (auto simp add: map_eq_Cons_conv)
  have "first_fit m 20 xs = b"
    by (simp add: first_fit_def find_conj_filter f sz)
  with f sz show "first_fit m 20 xs = filter (\<lambda>a. free_B (m a)) xs ! 1"
    and "size_B (m (first_fit m 20 xs)) = 4096" by simp_all
qed

lemma mapped_lo: "mapped a n \<Longrightarrow> 4096 \<le> unat a"
proof -
  assume "mapped a n"
  then have "a \<noteq> 0" and d: "4096 dvd unat a"
    by (simp_all add: mapped_def NULL_def PAGE_SIZE_def)
  then have "unat a \<noteq> 0" by (simp add: unat_eq_0)
  with d show ?thesis by (auto elim: dvdE)
qed

lemma threshold_no_wrap:
  assumes "unat (s :: 64 word) + 4096 < 2 ^ 64" and "sz \<le> s"
  shows "sz + sizeof_Block + MIN_BLOCK_SIZE \<le> s \<longleftrightarrow> unat sz + 24 + 8 \<le> unat s"
proof -
  from assms have "unat sz \<le> unat s" by (simp add: word_le_nat_alt)
  with assms(1) have 1: "unat sz + 24 < 2 ^ 64" and 2: "unat sz + 24 + 8 < 2 ^ 64" by simp_all
  from 1 have "unat (sz + sizeof_Block) = unat sz + 24" by (simp add: unat_add64)
  with 2 have "unat (sz + sizeof_Block + MIN_BLOCK_SIZE) = unat sz + 24 + 8" by (simp add: unat_add64)
  then show ?thesis by (simp add: word_le_nat_alt)
qed

lemma tiles_sum:
  "tiles m lo xs hi \<Longrightarrow> lo + (\<Sum>a\<leftarrow>xs. unat sizeof_Block + unat (size_B (m a))) = hi"
proof (induction xs arbitrary: lo)
  case Nil
  then show ?case by simp
next
  case (Cons x xs)
  then have "tiles m (lo + 24 + unat (size_B (m x))) xs hi" by simp
  from Cons.IH [OF this] show ?case by simp
qed

lemma chain_nth:
  "block_list m p xs \<Longrightarrow> tiles m lo xs hi \<Longrightarrow> Suc i < length xs \<Longrightarrow>
     next_B (m (xs ! i)) = xs ! Suc i
     \<and> unat (xs ! Suc i) = unat (xs ! i) + unat sizeof_Block + unat (size_B (m (xs ! i)))"
proof (induction xs arbitrary: p lo i)
  case Nil
  then show ?case by simp
next
  case (Cons x xs)
  then obtain y ys where xs: "xs = y # ys" by (cases xs) auto
  from Cons.prems have bl: "block_list m (next_B (m x)) xs"
    and tl: "tiles m (lo + 24 + unat (size_B (m x))) xs hi" and ux: "unat x = lo"
    by simp_all
  show ?case
  proof (cases i)
    case 0
    with bl tl ux xs show ?thesis by simp
  next
    case (Suc j)
    with Cons.prems have "Suc j < length xs" by simp
    from Cons.IH [OF bl tl this] Suc show ?thesis by simp
  qed
qed

lemma terminal_nth:
  "block_list m p xs \<Longrightarrow> i < length xs \<Longrightarrow> next_B (m (xs ! i)) = NULL \<longleftrightarrow> Suc i = length xs"
proof (induction xs arbitrary: p i)
  case Nil
  then show ?case by simp
next
  case (Cons x xs)
  from Cons.prems have bl: "block_list m (next_B (m x)) xs" by simp
  show ?case
  proof (cases i)
    case 0
    with bl show ?thesis by (cases xs) auto
  next
    case (Suc j)
    with Cons.prems have "j < length xs" by simp
    from Cons.IH [OF bl this] Suc show ?thesis by simp
  qed
qed


section \<open>The operations on lists of blocks\<close>

lemma find_loop_list:
  "block_list (mem st) p xs \<Longrightarrow> list_all (hdr_ok st) xs \<Longrightarrow>
     find_loop sz p st = Some (Inr (first_fit (mem st) sz xs, st))"
proof (induction xs arbitrary: p)
  case Nil
  then show ?case
    by (simp add: find_loop.simps first_fit_def)
next
  case (Cons x xs)
  then have p: "p = x" "x \<noteq> NULL" and rest: "block_list (mem st) (next_B (mem st x)) xs"
    and ok: "hdr_ok st x" and oks: "list_all (hdr_ok st) xs"
    by simp_all
  show ?case
  proof (cases "free_B (mem st x) \<and> sz \<le> size_B (mem st x)")
    case True
    with p ok show ?thesis
      by (subst find_loop.simps) (simp add: first_fit_def fits_ok)
  next
    case False
    with p ok Cons.IH [OF rest oks] show ?thesis
      by (subst find_loop.simps) (auto simp add: first_fit_def fits_ok load_ok)
  qed
qed

lemma find_free_block_list:
  "heap_list st xs \<Longrightarrow> find_free_block sz st = Some (Inr (first_fit (mem st) sz xs, st))"
  by (simp add: heap_list_def find_free_block_def find_loop_list)

lemma split_block_eq:
  assumes b: "hdr_ok st b" and nb: "hdr_ok st (b + sizeof_Block + l)"
    and ne: "sizeof_Block + l \<noteq> 0"
  shows "split_block b l st =
    Inr (st\<lparr>mem := (mem st)(b + sizeof_Block + l :=
                \<lparr>size_B = size_B (mem st b) - sizeof_Block - l, free_B = True,
                 next_B = next_B (mem st b)\<rparr>,
             b := \<lparr>size_B = l, free_B = free_B (mem st b), next_B = b + sizeof_Block + l\<rparr>)\<rparr>)"
proof -
  have d: "b + sizeof_Block + l \<noteq> b"
    using ne by (simp add: add.assoc)
  have "split_block b l st =
      Inr (set_next b (b + sizeof_Block + l)
        (set_next (b + sizeof_Block + l)
           (next_B (mem (set_size b l (set_free (b + sizeof_Block + l) True
              (set_size (b + sizeof_Block + l) (size_B (mem st b) - sizeof_Block - l) st))) b))
           (set_size b l (set_free (b + sizeof_Block + l) True
              (set_size (b + sizeof_Block + l) (size_B (mem st b) - sizeof_Block - l) st)))))"
    using b nb by (simp add: split_block_def Let_def load_ok store_ok)
  also have "\<dots> = Inr (st\<lparr>mem := (mem st)(b + sizeof_Block + l :=
                \<lparr>size_B = size_B (mem st b) - sizeof_Block - l, free_B = True,
                 next_B = next_B (mem st b)\<rparr>,
             b := \<lparr>size_B = l, free_B = free_B (mem st b), next_B = b + sizeof_Block + l\<rparr>)\<rparr>)"
    using d by (auto simp add: set_size_def set_free_def set_next_def fun_eq_iff intro!: State.equality)
  finally show ?thesis .
qed

lemma malloc_list:
  assumes "heap_list st xs"
  shows "malloc sz st =
    (if first_fit (mem st) sz xs = NULL then Some (Inr (NULL, st))
     else Some
       (seq (if sz + sizeof_Block + MIN_BLOCK_SIZE \<le> size_B (mem st (first_fit (mem st) sz xs))
             then split_block (first_fit (mem st) sz xs) sz st else Inr st) (\<lambda>st2.
        seq (store_free (first_fit (mem st) sz xs) False st2) (\<lambda>st3.
        Inr (first_fit (mem st) sz xs + sizeof_Block, st3)))))"
proof (cases "first_fit (mem st) sz xs = NULL")
  case True
  then show ?thesis by (simp add: malloc_def find_free_block_list [OF assms])
next
  case False
  from first_fit_found [OF False] assms have "hdr_ok st (first_fit (mem st) sz xs)"
    by (auto simp add: heap_list_def list_all_iff)
  with False show ?thesis
    by (simp add: malloc_def find_free_block_list [OF assms] load_ok)
qed

lemma malloc_none:
  assumes "heap_list st xs" and "first_fit (mem st) sz xs = NULL"
  shows "malloc sz st = Some (Inr (NULL, st))"
  using assms by (simp add: malloc_list)

section \<open>Well-formed heaps\<close>

lemma heap_ok_bounds:
  assumes "heap_ok st xs" and "b \<in> set xs"
  shows "4096 \<le> unat b" and "unat b + 24 + unat (size_B (mem st b)) < 2 ^ 64"
    and "hdr_ok st b" and "block_in_pages st b"
proof -
  let ?lo = "unat (head_H (heap st))" and ?hi = "unat (head_H (heap st)) + unat (size_H (heap st))"
  from assms(1) have t: "tiles (mem st) ?lo xs ?hi" and m: "mapped (head_H (heap st)) (size_H (heap st))"
    and pl: "fst (pages st) \<le> ?lo" and ph: "?hi \<le> snd (pages st)"
    by (simp_all add: heap_ok_def)
  from tiles_lower [OF t assms(2)] mapped_lo [OF m] show 1: "4096 \<le> unat b" by simp
  from m have hi: "?hi < 2 ^ 64" by (simp add: mapped_def)
  with tiles_upper [OF t assms(2)] show 2: "unat b + 24 + unat (size_B (mem st b)) < 2 ^ 64" by simp
  from tiles_lower [OF t assms(2)] tiles_upper [OF t assms(2)] pl ph hi
  show "hdr_ok st b" and "block_in_pages st b"
    by (simp_all add: hdr_ok_def in_pages_def block_in_pages_def)
qed

lemma heap_ok_list: "heap_ok st xs \<Longrightarrow> heap_list st xs"
  using heap_ok_bounds(3) by (auto simp add: heap_list_def list_all_iff heap_ok_def)

lemma malloc_whole:
  assumes ok: "heap_ok st xs" and b: "b = first_fit (mem st) sz xs" "b \<noteq> NULL"
    and small: "\<not> unat sz + 24 + 8 \<le> unat (size_B (mem st b))"
  shows "malloc sz st = Some (Inr (b + sizeof_Block, set_free b False st))"
    and "heap_ok (set_free b False st) xs"
proof -
  note hl = heap_ok_list [OF ok]
  from b first_fit_found [of "mem st" sz xs]
  have bin: "b \<in> set xs" and fit: "sz \<le> size_B (mem st b)" by simp_all
  from heap_ok_bounds [OF ok bin] have "unat (size_B (mem st b)) + 4096 < 2 ^ 64"
    and hb: "hdr_ok st b" by simp_all
  from threshold_no_wrap [OF this(1) fit] small
  have "\<not> sz + sizeof_Block + MIN_BLOCK_SIZE \<le> size_B (mem st b)" by simp
  with b hb show "malloc sz st = Some (Inr (b + sizeof_Block, set_free b False st))"
    by (simp add: malloc_list [OF hl] store_ok)
  let ?m = "mem (set_free b False st)"
  have "\<forall>x\<in>set xs. next_B (?m x) = next_B (mem st x)" and "\<forall>x\<in>set xs. size_B (?m x) = size_B (mem st x)"
    by (simp_all add: set_free_def)
  with ok block_list_frame [of xs ?m "mem st"] tiles_frame [of xs ?m "mem st"]
  show "heap_ok (set_free b False st) xs"
    by (simp add: heap_ok_def)
qed

lemma malloc_split:
  assumes ok: "heap_ok st xs" and b: "b = first_fit (mem st) sz xs" "b \<noteq> NULL"
    and big: "unat sz + 24 + 8 \<le> unat (size_B (mem st b))"
    and nb: "nb = b + sizeof_Block + sz"
    and m': "m' = (mem st)(nb := \<lparr>size_B = size_B (mem st b) - sizeof_Block - sz, free_B = True,
                                   next_B = next_B (mem st b)\<rparr>,
                           b := \<lparr>size_B = sz, free_B = False, next_B = nb\<rparr>)"
  shows "malloc sz st = Some (Inr (b + sizeof_Block, st\<lparr>mem := m'\<rparr>))"
    and "heap_ok (st\<lparr>mem := m'\<rparr>) (ins_after b nb xs)"
    and "unat nb = unat b + 24 + unat sz"
    and "unat (size_B (mem st b) - sizeof_Block - sz) = unat (size_B (mem st b)) - 24 - unat sz"
    and "split_block b sz st = Inr (st\<lparr>mem := m'(b := (m' b)\<lparr>free_B := free_B (mem st b)\<rparr>)\<rparr>)"
proof -
  note hl = heap_ok_list [OF ok]
  from ok have bl: "block_list (mem st) (head_H (heap st)) xs"
    and tl: "tiles (mem st) (unat (head_H (heap st))) xs (unat (head_H (heap st)) + unat (size_H (heap st)))"
    by (simp_all add: heap_ok_def)
  from b first_fit_found [of "mem st" sz xs]
  have bin: "b \<in> set xs" and fit: "sz \<le> size_B (mem st b)" by simp_all
  note bd = heap_ok_bounds [OF ok bin]
  from bd have "unat (size_B (mem st b)) + 4096 < 2 ^ 64" by simp
  from threshold_no_wrap [OF this fit] big
  have cond: "sz + sizeof_Block + MIN_BLOCK_SIZE \<le> size_B (mem st b)" by simp
  from big bd have "unat sizeof_Block + unat sz < 2 ^ 64" by simp
  then have u24: "unat (sizeof_Block + sz) = 24 + unat sz" by (simp add: unat_add64)
  then have ne: "sizeof_Block + sz \<noteq> 0" by auto
  from big bd u24 have "unat b + unat (sizeof_Block + sz) < 2 ^ 64" by simp
  then have "unat (b + (sizeof_Block + sz)) = unat b + unat (sizeof_Block + sz)" by (rule unat_add64)
  with u24 show unb: "unat nb = unat b + 24 + unat sz" by (simp add: nb add.assoc)
  from big have "unat (size_B (mem st b) - sizeof_Block) = unat (size_B (mem st b)) - 24"
    by (simp add: unat_sub64)
  with big show usz: "unat (size_B (mem st b) - sizeof_Block - sz) = unat (size_B (mem st b)) - 24 - unat sz"
    by (simp add: unat_sub64)
  from bd(4) unb big have hnb: "hdr_ok st nb"
    by (simp add: hdr_ok_def in_pages_def block_in_pages_def)
  have bnb: "nb \<noteq> b" using ne by (simp add: nb add.assoc)
  from split_block_eq [OF bd(3) hnb [unfolded nb] ne]
  show sp: "split_block b sz st = Inr (st\<lparr>mem := m'(b := (m' b)\<lparr>free_B := free_B (mem st b)\<rparr>)\<rparr>)"
    using bnb by (simp add: m' nb)
  have "store_free b False (st\<lparr>mem := m'(b := (m' b)\<lparr>free_B := free_B (mem st b)\<rparr>)\<rparr>)
      = Inr (st\<lparr>mem := m'\<rparr>)"
    using bd(3) bnb by (simp add: store_free_def hdr_ok_fields set_free_def m')
  with b cond sp show "malloc sz st = Some (Inr (b + sizeof_Block, st\<lparr>mem := m'\<rparr>))"
    by (simp add: malloc_list [OF hl])
  from usz big have "unat sz + 24 + unat (size_B (mem st b) - sizeof_Block - sz) = unat (size_B (mem st b))"
    by simp
  from split_lists [OF bl tl bin unb this m'] ok
  show "heap_ok (st\<lparr>mem := m'\<rparr>) (ins_after b nb xs)"
    by (simp add: heap_ok_def)
qed


lemma round_up_bounds: "n \<le> round_up n" "0 < n \<Longrightarrow> 4096 \<le> round_up n"
proof -
  have "(n + 4095) mod 4096 < 4096" by simp
  moreover have "(n + 4095) div 4096 * 4096 + (n + 4095) mod 4096 = n + 4095" by simp
  ultimately have 1: "n \<le> (n + 4095) div 4096 * 4096" by linarith
  then show "n \<le> round_up n" by (simp add: round_up_def PAGE_SIZE_def)
  assume "0 < n"
  then have "1 \<le> (n + 4095) div 4096" by (simp add: Suc_le_eq div_greater_zero_iff)
  then have "1 * 4096 \<le> (n + 4095) div 4096 * 4096" by (rule mult_le_mono1)
  then show "4096 \<le> round_up n" by (simp add: round_up_def PAGE_SIZE_def)
qed

lemma dvd_gap: "(d::nat) dvd x \<Longrightarrow> d dvd y \<Longrightarrow> x < y \<Longrightarrow> x + d \<le> y"
proof -
  assume d: "d dvd x" "d dvd y" and l: "x < y"
  then have "d dvd y - x" by (simp add: dvd_diff_nat)
  moreover from l have "0 < y - x" by simp
  ultimately have "d \<le> y - x" by (rule dvd_imp_le)
  with l show ?thesis by simp
qed

lemma page_dvd_space: "(4096::nat) dvd 2 ^ 64"
proof -
  have "(2::nat) ^ 12 dvd 2 ^ 64" by (rule le_imp_power_dvd) simp
  then show ?thesis by simp
qed

lemma mapped_room: "mapped a n \<Longrightarrow> unat a + 4096 \<le> 2 ^ 64"
proof -
  assume "mapped a n"
  then have d: "4096 dvd unat a" by (simp add: mapped_def PAGE_SIZE_def)
  have "unat a < 2 ^ 64" using unsigned_less [of a, where 'a = nat] by simp
  with d page_dvd_space show ?thesis by (rule dvd_gap)
qed

lemma unat_MAP_FAILED: "unat MAP_FAILED = 2 ^ 64 - 1"
  by (simp add: MAP_FAILED_def unsigned_minus_1_eq_mask mask_eq_exp_minus_1)

lemma MAP_FAILED_faults: "\<not> in_pages st MAP_FAILED 0 8"
  by (simp add: in_pages_def unat_MAP_FAILED)

lemma init_heap_refused:
  "\<not> (n \<noteq> 0 \<and> mapped os n) \<Longrightarrow> init_heap os n st = Inl SIGSEGV"
  by (auto simp add: init_heap_def mmap_def Let_def store_size_def MAP_FAILED_faults)

lemma init_heap_mapped:
  assumes "mapped memory n" and "n \<noteq> 0"
  shows "init_heap memory n st =
     Inr (st\<lparr>mem := (mem st)(memory := \<lparr>size_B = n - sizeof_Block, free_B = True, next_B = NULL\<rparr>),
            heap := \<lparr>head_H = memory, size_H = n\<rparr>,
            pages := (unat memory, unat memory + round_up (unat n))\<rparr>)"
proof -
  from assms(2) have "0 < unat n" by (simp add: unat_gt_0)
  from round_up_bounds(2) [OF this] mapped_room [OF assms(1)]
  have "\<And>s. pages s = (unat memory, unat memory + round_up (unat n)) \<Longrightarrow> hdr_ok s memory"
    by (simp add: hdr_ok_def in_pages_def)
  then show ?thesis
    using assms
    by (simp add: init_heap_def mmap_def Let_def store_ok set_size_def set_free_def set_next_def)
qed

lemma init_heap_ok:
  assumes "mapped memory n" and "sizeof_Block \<le> n"
  shows "\<exists>st'. init_heap memory n st = Inr st' \<and> heap st' = \<lparr>head_H = memory, size_H = n\<rparr>
     \<and> heap_ok st' [memory]"
proof -
  from assms(2) have u: "unat (n - sizeof_Block) = unat n - 24" and l: "24 \<le> unat n"
    by (simp_all add: unat_sub64 word_le_nat_alt)
  then have nz: "n \<noteq> 0" by auto
  from round_up_bounds(1) [of "unat n"] u l assms(1)
  show ?thesis
    by (simp add: init_heap_mapped [OF assms(1) nz] heap_ok_def mapped_def)
qed

section \<open>The example states\<close>

lemma init_fresh: "init_heap 0x1000 0x10000 initial_state = Inr fresh_heap"
proof -
  have m: "mapped 0x1000 0x10000" by (simp add: mapped_def NULL_def PAGE_SIZE_def)
  have r: "round_up 0x10000 = 0x10000" by (simp add: round_up_def PAGE_SIZE_def)
  show ?thesis
    by (simp add: init_heap_mapped [OF m] r fresh_heap_def sizeof_Block_def)
qed

lemma init_tiny:
  assumes "n \<noteq> 0" and "n < sizeof_Block"
  shows "mapped 0x1000 n" and "init_heap 0x1000 n initial_state = Inr (tiny_heap n)"
proof -
  from assms(2) have u: "unat n < 24" by (simp add: word_less_nat_alt)
  then show m: "mapped 0x1000 n" by (simp add: mapped_def NULL_def PAGE_SIZE_def)
  from assms(1) have "0 < unat n" by (simp add: unat_gt_0)
  with u have "(unat n + 4095) div 4096 = 1" by simp
  then have r: "round_up (unat n) = 0x1000" by (simp add: round_up_def PAGE_SIZE_def)
  show "init_heap 0x1000 n initial_state = Inr (tiny_heap n)"
    by (simp add: init_heap_mapped [OF m assms(1)] r tiny_heap_def)
qed

lemma fresh_heap_ok: "heap_ok fresh_heap [0x1000]"
  by (simp add: heap_ok_def fresh_heap_def mapped_def NULL_def PAGE_SIZE_def)

lemma after_two_ok: "heap_ok after_two [0x1000, 0x101C, 0x1038]"
  by (simp add: heap_ok_def after_two_def fresh_heap_def mapped_def NULL_def PAGE_SIZE_def)

lemma after_walk_ok: "heap_ok after_walk [0x1000, 0x2018]"
  by (simp add: heap_ok_def after_walk_def fresh_heap_def mapped_def NULL_def PAGE_SIZE_def)

lemma example_heap_ok: "heap_ok example_heap [0x1000, 0x1028, 0x1440, 0x2458]"
  by (simp add: heap_ok_def example_heap_def mapped_def NULL_def PAGE_SIZE_def)


lemma malloc_fresh_4: "malloc 4 fresh_heap = Some (Inr (0x1018, fresh_heap
     \<lparr>mem := (mem initial_state)
        (0x1000 := \<lparr>size_B = 4, free_B = False, next_B = 0x101C\<rparr>,
         0x101C := \<lparr>size_B = 0xFFCC, free_B = True, next_B = NULL\<rparr>)\<rparr>))"
proof -
  have ff: "0x1000 = first_fit (mem fresh_heap) 4 [0x1000]"
    by (simp add: first_fit_def fresh_heap_def)
  have nn: "(0x1000 :: addr) \<noteq> NULL" by (simp add: NULL_def)
  have big: "unat (4 :: size_t) + 24 + 8 \<le> unat (size_B (mem fresh_heap 0x1000))"
    by (simp add: fresh_heap_def)
  from malloc_split(1) [OF fresh_heap_ok ff nn big refl refl]
  show ?thesis
    by (simp add: sizeof_Block_def fresh_heap_def fun_upd_twist)
qed

lemma two_allocs:
  "mallocs [4, 4] fresh_heap = Some (Inr ([0x1018, 0x1034], after_two))"
proof -
  let ?s1 = "fresh_heap
     \<lparr>mem := (mem initial_state)
        (0x1000 := \<lparr>size_B = 4, free_B = False, next_B = 0x101C\<rparr>,
         0x101C := \<lparr>size_B = 0xFFCC, free_B = True, next_B = NULL\<rparr>)\<rparr>"
  have ok: "heap_ok ?s1 [0x1000, 0x101C]"
    by (simp add: heap_ok_def fresh_heap_def mapped_def NULL_def PAGE_SIZE_def)
  have ff: "0x101C = first_fit (mem ?s1) 4 [0x1000, 0x101C]"
    by (simp add: first_fit_def)
  have nn: "(0x101C :: addr) \<noteq> NULL" by (simp add: NULL_def)
  have big: "unat (4 :: size_t) + 24 + 8 \<le> unat (size_B (mem ?s1 0x101C))"
    by simp
  from malloc_split(1) [OF ok ff nn big refl refl]
  have "malloc 4 ?s1 = Some (Inr (0x1034, after_two))"
    by (simp add: sizeof_Block_def after_two_def fun_upd_twist)
  with malloc_fresh_4 show ?thesis by simp
qed


section \<open>Allocation\<close>

text \<open>
  Claim C1, amended. On a well-formed heap, \<open>malloc\<close> returns what \<open>find_free_block\<close>
  finds, moved past the header: \<open>NULL\<close> with the state as it was if no block was found,
  else the address of the block plus \<open>sizeof(Block)\<close>, with the block marked busy. If
  \<open>block.size \<ge> requested + sizeof(Block) + MIN_BLOCK_SIZE\<close> the block was split at the
  requested size; otherwise only its free flag changed and its size, which is the size it
  had, is at least the requested size (equal to it on an exact fit).
\<close>

theorem malloc_contract:
  assumes "heap_ok st xs"
  shows "\<exists>b. find_free_block sz st = Some (Inr (b, st))
    \<and> (b = NULL \<longrightarrow> malloc sz st = Some (Inr (NULL, st)))
    \<and> (b \<noteq> NULL \<longrightarrow>
         (\<exists>st'. malloc sz st = Some (Inr (b + sizeof_Block, st'))
            \<and> unat (b + sizeof_Block) = unat b + unat sizeof_Block
            \<and> \<not> free_B (mem st' b)
            \<and> (unat sz + unat sizeof_Block + unat MIN_BLOCK_SIZE \<le> unat (size_B (mem st b)) \<longrightarrow>
                  (\<exists>st2. split_block b sz st = Inr st2 \<and> st' = set_free b False st2)
                  \<and> size_B (mem st' b) = sz
                  \<and> next_B (mem st' b) = b + sizeof_Block + sz
                  \<and> mem st' (b + sizeof_Block + sz) =
                       \<lparr>size_B = size_B (mem st b) - sizeof_Block - sz, free_B = True,
                        next_B = next_B (mem st b)\<rparr>)
            \<and> (\<not> unat sz + unat sizeof_Block + unat MIN_BLOCK_SIZE \<le> unat (size_B (mem st b)) \<longrightarrow>
                  st' = set_free b False st
                  \<and> size_B (mem st' b) = size_B (mem st b)
                  \<and> next_B (mem st' b) = next_B (mem st b)
                  \<and> sz \<le> size_B (mem st' b))))"
proof -
  let ?b = "first_fit (mem st) sz xs"
  note hl = heap_ok_list [OF assms]
  have f: "find_free_block sz st = Some (Inr (?b, st))"
    by (rule find_free_block_list [OF hl])
  have n: "?b = NULL \<longrightarrow> malloc sz st = Some (Inr (NULL, st))"
    by (simp add: malloc_list [OF hl])
  have s: "\<exists>st'. malloc sz st = Some (Inr (?b + sizeof_Block, st'))
            \<and> unat (?b + sizeof_Block) = unat ?b + unat sizeof_Block
            \<and> \<not> free_B (mem st' ?b)
            \<and> (unat sz + unat sizeof_Block + unat MIN_BLOCK_SIZE \<le> unat (size_B (mem st ?b)) \<longrightarrow>
                  (\<exists>st2. split_block ?b sz st = Inr st2 \<and> st' = set_free ?b False st2)
                  \<and> size_B (mem st' ?b) = sz
                  \<and> next_B (mem st' ?b) = ?b + sizeof_Block + sz
                  \<and> mem st' (?b + sizeof_Block + sz) =
                       \<lparr>size_B = size_B (mem st ?b) - sizeof_Block - sz, free_B = True,
                        next_B = next_B (mem st ?b)\<rparr>)
            \<and> (\<not> unat sz + unat sizeof_Block + unat MIN_BLOCK_SIZE \<le> unat (size_B (mem st ?b)) \<longrightarrow>
                  st' = set_free ?b False st
                  \<and> size_B (mem st' ?b) = size_B (mem st ?b)
                  \<and> next_B (mem st' ?b) = next_B (mem st ?b)
                  \<and> sz \<le> size_B (mem st' ?b))" if nn: "?b \<noteq> NULL"
  proof -
    from nn first_fit_found [of "mem st" sz xs]
    have bin: "?b \<in> set xs" and fit: "sz \<le> size_B (mem st ?b)" by simp_all
    from heap_ok_bounds [OF assms bin] have "unat ?b + unat sizeof_Block < 2 ^ 64" by simp
    then have up: "unat (?b + sizeof_Block) = unat ?b + unat sizeof_Block" by (rule unat_add64)
    show ?thesis
    proof (cases "unat sz + 24 + 8 \<le> unat (size_B (mem st ?b))")
      case True
      let ?nb = "?b + sizeof_Block + sz"
      let ?m = "(mem st)(?nb := \<lparr>size_B = size_B (mem st ?b) - sizeof_Block - sz, free_B = True,
                                   next_B = next_B (mem st ?b)\<rparr>,
                           ?b := \<lparr>size_B = sz, free_B = False, next_B = ?nb\<rparr>)"
      note sp = malloc_split [OF assms refl nn True refl refl]
      from sp(3) have "unat ?nb \<noteq> unat ?b" by simp
      then have ne: "?nb \<noteq> ?b" by (auto simp add: add.assoc)
      have "st\<lparr>mem := ?m\<rparr>
          = set_free ?b False (st\<lparr>mem := ?m(?b := (?m ?b)\<lparr>free_B := free_B (mem st ?b)\<rparr>)\<rparr>)"
        by (simp add: set_free_def)
      with sp(5) have "\<exists>st2. split_block ?b sz st = Inr st2 \<and> st\<lparr>mem := ?m\<rparr> = set_free ?b False st2"
        by blast
      with sp(1) up ne True show ?thesis by simp
    next
      case False
      note wh = malloc_whole [OF assms refl nn False]
      from wh(1) up fit False show ?thesis by (simp add: set_free_def)
    qed
  qed
  from f n s show ?thesis by blast
qed

theorem malloc_contract_witness:
  "init_heap 0x1000 0x10000 initial_state = Inr fresh_heap
   \<and> heap_ok fresh_heap [0x1000]
   \<and> find_free_block 4 fresh_heap = Some (Inr (0x1000, fresh_heap))
   \<and> malloc 4 fresh_heap = Some (Inr (0x1018, fresh_heap
        \<lparr>mem := (mem initial_state)
           (0x1000 := \<lparr>size_B = 4, free_B = False, next_B = 0x101C\<rparr>,
            0x101C := \<lparr>size_B = 0xFFCC, free_B = True, next_B = NULL\<rparr>)\<rparr>))"
proof -
  have big: "unat (4 :: size_t) + unat sizeof_Block + unat MIN_BLOCK_SIZE
      \<le> unat (size_B (mem fresh_heap 0x1000))"
    by (simp add: fresh_heap_def)
  from malloc_contract [OF fresh_heap_ok, of 4] obtain b where
    f: "find_free_block 4 fresh_heap = Some (Inr (b, fresh_heap))"
    and z: "b = NULL \<longrightarrow> malloc 4 fresh_heap = Some (Inr (NULL, fresh_heap))"
    and m: "b \<noteq> NULL \<longrightarrow> (\<exists>st'. malloc 4 fresh_heap = Some (Inr (b + sizeof_Block, st')))"
    by blast
  from z malloc_fresh_4 have "b \<noteq> NULL" by (auto simp add: NULL_def)
  with m malloc_fresh_4 have "b = 0x1000" by (auto simp add: sizeof_Block_def)
  with f init_fresh fresh_heap_ok malloc_fresh_4 show ?thesis by simp
qed

text \<open>
  The claim as it is written says that a block taken whole is larger than the request.
  On a fresh heap of \<open>0x10000\<close> bytes a request for \<open>0xFFE8\<close> bytes takes the only block
  whole, and that block has exactly \<open>0xFFE8\<close> bytes.
\<close>

theorem malloc_exact_fit_counterexample:
  "init_heap 0x1000 0x10000 initial_state = Inr fresh_heap
   \<and> malloc 0xFFE8 fresh_heap = Some (Inr (0x1018, set_free 0x1000 False fresh_heap))
   \<and> size_B (mem (set_free 0x1000 False fresh_heap) 0x1000) = 0xFFE8
   \<and> \<not> 0xFFE8 < size_B (mem (set_free 0x1000 False fresh_heap) 0x1000)
   \<and> \<not> free_B (mem (set_free 0x1000 False fresh_heap) 0x1000)"
proof -
  have ff: "0x1000 = first_fit (mem fresh_heap) 0xFFE8 [0x1000]"
    by (simp add: first_fit_def fresh_heap_def)
  have nn: "(0x1000 :: addr) \<noteq> NULL" by (simp add: NULL_def)
  have small: "\<not> unat (0xFFE8 :: size_t) + 24 + 8 \<le> unat (size_B (mem fresh_heap 0x1000))"
    by (simp add: fresh_heap_def)
  from malloc_whole(1) [OF fresh_heap_ok ff nn small]
  have "malloc 0xFFE8 fresh_heap = Some (Inr (0x1018, set_free 0x1000 False fresh_heap))"
    by (simp add: sizeof_Block_def)
  with init_fresh show ?thesis by (simp add: set_free_def fresh_heap_def)
qed


section \<open>Invariants of the heap\<close>

lemma malloc_preserves:
  assumes "heap_ok st xs"
  shows "\<exists>p st' xs'. malloc sz st = Some (Inr (p, st')) \<and> heap_ok st' xs' \<and> heap st' = heap st"
proof (cases "first_fit (mem st) sz xs = NULL")
  case True
  from malloc_none [OF heap_ok_list [OF assms] True] assms show ?thesis by blast
next
  case nn: False
  show ?thesis
  proof (cases "unat sz + 24 + 8 \<le> unat (size_B (mem st (first_fit (mem st) sz xs)))")
    case True
    note sp = malloc_split [OF assms refl nn True refl refl]
    from sp(1) sp(2) show ?thesis by (intro exI conjI) (assumption, assumption, simp)
  next
    case False
    note wh = malloc_whole [OF assms refl nn False]
    from wh show ?thesis by (intro exI conjI) (assumption, assumption, simp)
  qed
qed

lemma mallocs_preserve:
  "heap_ok st xs \<Longrightarrow>
     \<exists>ps st' xs'. mallocs szs st = Some (Inr (ps, st')) \<and> heap_ok st' xs' \<and> heap st' = heap st"
proof (induction szs arbitrary: st xs)
  case Nil
  then show ?case by auto
next
  case (Cons sz szs)
  from malloc_preserves [OF Cons.prems, of sz] obtain p st1 xs1
    where 1: "malloc sz st = Some (Inr (p, st1))" "heap_ok st1 xs1" "heap st1 = heap st" by blast
  from Cons.IH [OF 1(2)] obtain ps st2 xs2
    where 2: "mallocs szs st1 = Some (Inr (ps, st2))" "heap_ok st2 xs2" "heap st2 = heap st1" by blast
  from 1 2 have "mallocs (sz # szs) st = Some (Inr (p # ps, st2))" "heap st2 = heap st" by simp_all
  with 2(2) show ?case by blast
qed

lemma heap_ok_after_mallocs:
  assumes "mapped memory n" and "sizeof_Block \<le> n"
  shows "\<exists>start ps st xs. init_heap memory n ini = Inr start
      \<and> mallocs szs start = Some (Inr (ps, st))
      \<and> heap st = \<lparr>head_H = memory, size_H = n\<rparr> \<and> heap_ok st xs"
proof -
  from init_heap_ok [OF assms, of ini] obtain start where s: "init_heap memory n ini = Inr start"
    "heap start = \<lparr>head_H = memory, size_H = n\<rparr>" "heap_ok start [memory]" by blast
  from mallocs_preserve [OF s(3), where szs = szs] s(1) s(2)
  show ?thesis by auto
qed

lemma tiny_cyclic:
  "malloc 0xFFFFFFFFFFFFFFE8 (tiny_heap 10) = Some (Inr (0x1018, cyclic_heap))"
proof -
  have hl: "heap_list (tiny_heap 10) [0x1000]"
    by (simp add: heap_list_def tiny_heap_def NULL_def hdr_ok_def in_pages_def)
  have ff: "first_fit (mem (tiny_heap 10)) 0xFFFFFFFFFFFFFFE8 [0x1000] = 0x1000"
    by (simp add: first_fit_def tiny_heap_def sizeof_Block_def)
  have th: "(0xFFFFFFFFFFFFFFE8 :: size_t) + sizeof_Block + MIN_BLOCK_SIZE
      \<le> size_B (mem (tiny_heap 10) 0x1000)"
    by (simp add: tiny_heap_def sizeof_Block_def MIN_BLOCK_SIZE_def)
  have al: "(0x1000 :: addr) + sizeof_Block + 0xFFFFFFFFFFFFFFE8 = 0x1000"
    by (simp add: sizeof_Block_def)
  have sp: "seq (split_block 0x1000 0xFFFFFFFFFFFFFFE8 (tiny_heap 10))
      (\<lambda>st2. seq (store_free 0x1000 False st2) (\<lambda>st3. Inr (0x1000 + sizeof_Block, st3)))
    = Inr (0x1018, cyclic_heap)"
    by (simp only: split_block_def Let_def al)
       (simp add: load_size_def load_next_def store_size_def
        store_free_def store_next_def in_pages_def set_size_def set_free_def set_next_def
        tiny_heap_def cyclic_heap_def sizeof_Block_def)
  from th sp show ?thesis
    by (simp only: malloc_list [OF hl] ff) (simp add: NULL_def)
qed

text \<open>
  Claim C4, amended. After \<open>init_heap\<close> on a successful mapping of at least
  \<open>sizeof(Block)\<close> bytes and after any sequence of \<open>malloc\<close> calls (each of which returns),
  the block list from \<open>head\<close> ends in \<open>NULL\<close> and the sum of \<open>sizeof(Block) + size\<close> over
  its blocks, taken in the natural numbers, is the size that was passed to \<open>init_heap\<close>.
\<close>

theorem coverage_invariant:
  assumes "mapped memory n" and "sizeof_Block \<le> n"
  shows "\<exists>start ps st xs. init_heap memory n ini = Inr start
      \<and> mallocs szs start = Some (Inr (ps, st))
      \<and> heap st = \<lparr>head_H = memory, size_H = n\<rparr>
      \<and> block_list (mem st) (head_H (heap st)) xs
      \<and> (\<Sum>a\<leftarrow>xs. unat sizeof_Block + unat (size_B (mem st a))) = unat n"
proof -
  from heap_ok_after_mallocs [OF assms, where szs = szs and ini = ini] obtain start ps st xs
    where i: "init_heap memory n ini = Inr start"
      and m: "mallocs szs start = Some (Inr (ps, st))"
      and h: "heap st = \<lparr>head_H = memory, size_H = n\<rparr>" and ok: "heap_ok st xs"
    by blast
  from ok h have bl: "block_list (mem st) (head_H (heap st)) xs"
    and tl: "tiles (mem st) (unat memory) xs (unat memory + unat n)"
    by (simp_all add: heap_ok_def)
  from tiles_sum [OF tl] have "(\<Sum>a\<leftarrow>xs. unat sizeof_Block + unat (size_B (mem st a))) = unat n"
    by simp
  with i m h bl show ?thesis by blast
qed

theorem coverage_invariant_witness:
  "mapped 0x1000 0x10000 \<and> sizeof_Block \<le> 0x10000
   \<and> init_heap 0x1000 0x10000 initial_state = Inr fresh_heap
   \<and> mallocs [4, 4] fresh_heap = Some (Inr ([0x1018, 0x1034], after_two))
   \<and> block_list (mem after_two) (head_H (heap after_two)) [0x1000, 0x101C, 0x1038]
   \<and> (\<Sum>a\<leftarrow>[0x1000, 0x101C, 0x1038]. unat sizeof_Block + unat (size_B (mem after_two a)))
        = unat (0x10000 :: size_t)"
proof -
  have m: "mapped 0x1000 0x10000" by (simp add: mapped_def NULL_def PAGE_SIZE_def)
  have s: "sizeof_Block \<le> 0x10000" by (simp add: sizeof_Block_def)
  have bl: "block_list (mem after_two) (head_H (heap after_two)) [0x1000, 0x101C, 0x1038]"
    using after_two_ok by (simp add: heap_ok_def)
  from coverage_invariant [OF m s, where szs = "[4, 4]" and ini = initial_state]
  obtain start ps st xs where i: "init_heap 0x1000 0x10000 initial_state = Inr start"
    and ms: "mallocs [4, 4] start = Some (Inr (ps, st))"
    and x: "block_list (mem st) (head_H (heap st)) xs"
    and c: "(\<Sum>a\<leftarrow>xs. unat sizeof_Block + unat (size_B (mem st a))) = unat (0x10000 :: size_t)"
    by blast
  from i init_fresh have "start = fresh_heap" by simp
  from ms [unfolded this two_allocs] have "st = after_two" by simp
  with x c block_list_unique [OF bl] have
    "(\<Sum>a\<leftarrow>[0x1000, 0x101C, 0x1038]. unat sizeof_Block + unat (size_B (mem after_two a)))
        = unat (0x10000 :: size_t)" by blast
  with m s bl init_fresh two_allocs show ?thesis by blast
qed

text \<open>
  The claim as it is written covers every size passed to \<open>init_heap\<close>. With 10 bytes, on a
  successful mapping, the only block records \<open>10 - 24\<close> wrapped around, and header plus
  payload come to \<open>2 ^ 64 + 10\<close> bytes, not 10.
\<close>

theorem coverage_small_init_counterexample:
  "mapped 0x1000 10
   \<and> init_heap 0x1000 10 initial_state = Inr (tiny_heap 10)
   \<and> head_H (heap (tiny_heap 10)) = 0x1000
   \<and> next_B (mem (tiny_heap 10) 0x1000) = NULL
   \<and> unat sizeof_Block + unat (size_B (mem (tiny_heap 10) 0x1000)) = 2 ^ 64 + 10
   \<and> unat sizeof_Block + unat (size_B (mem (tiny_heap 10) 0x1000)) \<noteq> unat (10 :: size_t)"
proof -
  have "(10 :: size_t) \<noteq> 0" and "(10 :: size_t) < sizeof_Block"
    by (simp_all add: sizeof_Block_def)
  from init_tiny [OF this] show ?thesis
    by (simp add: tiny_heap_def sizeof_Block_def)
qed

text \<open>
  Claim C5, amended. After \<open>init_heap\<close> on a successful mapping of at least
  \<open>sizeof(Block)\<close> bytes and after any sequence of \<open>malloc\<close> calls (each of which returns),
  the block list from \<open>head\<close> is not empty and ends in \<open>NULL\<close>, its addresses increase
  strictly, every block but the last has as \<open>next\<close> the following block of the list, whose
  address is this block's address plus \<open>sizeof(Block)\<close> plus this block's size (as
  numbers), and the last block, and no other, has \<open>next = NULL\<close>.
\<close>

theorem contiguity_invariant:
  assumes "mapped memory n" and "sizeof_Block \<le> n"
  shows "\<exists>start ps st xs. init_heap memory n ini = Inr start
      \<and> mallocs szs start = Some (Inr (ps, st))
      \<and> block_list (mem st) (head_H (heap st)) xs \<and> xs \<noteq> [] \<and> sorted_wrt (<) xs
      \<and> (\<forall>i. Suc i < length xs \<longrightarrow>
            next_B (mem st (xs ! i)) = xs ! Suc i
            \<and> unat (xs ! Suc i)
                = unat (xs ! i) + unat sizeof_Block + unat (size_B (mem st (xs ! i))))
      \<and> (\<forall>i<length xs. next_B (mem st (xs ! i)) = NULL \<longleftrightarrow> Suc i = length xs)"
proof -
  from heap_ok_after_mallocs [OF assms, where szs = szs and ini = ini] obtain start ps st xs
    where i: "init_heap memory n ini = Inr start"
      and m: "mallocs szs start = Some (Inr (ps, st))"
      and h: "heap st = \<lparr>head_H = memory, size_H = n\<rparr>" and ok: "heap_ok st xs"
    by blast
  from ok h have bl: "block_list (mem st) (head_H (heap st)) xs"
    and tl: "tiles (mem st) (unat memory) xs (unat memory + unat n)"
    by (simp_all add: heap_ok_def)
  from assms(1) h bl have ne: "xs \<noteq> []" by (auto simp add: mapped_def)
  from i m bl ne tiles_increasing [OF tl] chain_nth [OF bl tl] terminal_nth [OF bl]
  show ?thesis by blast
qed

theorem contiguity_invariant_witness:
  "mapped 0x1000 0x10000 \<and> sizeof_Block \<le> 0x10000
   \<and> init_heap 0x1000 0x10000 initial_state = Inr fresh_heap
   \<and> mallocs [4, 4] fresh_heap = Some (Inr ([0x1018, 0x1034], after_two))
   \<and> block_list (mem after_two) (head_H (heap after_two)) [0x1000, 0x101C, 0x1038]
   \<and> next_B (mem after_two 0x1000) = 0x101C
   \<and> unat (0x101C :: addr) = unat (0x1000 :: addr) + unat sizeof_Block + unat (size_B (mem after_two 0x1000))
   \<and> next_B (mem after_two 0x101C) = 0x1038
   \<and> unat (0x1038 :: addr) = unat (0x101C :: addr) + unat sizeof_Block + unat (size_B (mem after_two 0x101C))
   \<and> next_B (mem after_two 0x1038) = NULL"
proof -
  let ?xs = "[0x1000, 0x101C, 0x1038] :: addr list"
  have m: "mapped 0x1000 0x10000" by (simp add: mapped_def NULL_def PAGE_SIZE_def)
  have s: "sizeof_Block \<le> 0x10000" by (simp add: sizeof_Block_def)
  have bl: "block_list (mem after_two) (head_H (heap after_two)) ?xs"
    using after_two_ok by (simp add: heap_ok_def)
  from contiguity_invariant [OF m s, where szs = "[4, 4]" and ini = initial_state]
  obtain start ps st xs where i: "init_heap 0x1000 0x10000 initial_state = Inr start"
    and ms: "mallocs [4, 4] start = Some (Inr (ps, st))"
    and x0: "block_list (mem st) (head_H (heap st)) xs"
    and c0: "\<forall>i. Suc i < length xs \<longrightarrow>
            next_B (mem st (xs ! i)) = xs ! Suc i
            \<and> unat (xs ! Suc i)
                = unat (xs ! i) + unat sizeof_Block + unat (size_B (mem st (xs ! i)))"
    and t0: "\<forall>i<length xs. next_B (mem st (xs ! i)) = NULL \<longleftrightarrow> Suc i = length xs"
    by blast
  from i init_fresh have "start = fresh_heap" by simp
  from ms [unfolded this two_allocs] have st: "st = after_two" by simp
  note x = x0 [unfolded st] and c = c0 [unfolded st] and t = t0 [unfolded st]
  from block_list_unique [OF bl x] have xs: "xs = ?xs" by simp
  from c [rule_format, of 0] c [rule_format, of 1] t [rule_format, of 2] xs
  have "next_B (mem after_two 0x1000) = 0x101C
   \<and> unat (0x101C :: addr) = unat (0x1000 :: addr) + unat sizeof_Block + unat (size_B (mem after_two 0x1000))
   \<and> next_B (mem after_two 0x101C) = 0x1038
   \<and> unat (0x1038 :: addr) = unat (0x101C :: addr) + unat sizeof_Block + unat (size_B (mem after_two 0x101C))
   \<and> next_B (mem after_two 0x1038) = NULL"
    by simp
  with m s bl init_fresh two_allocs show ?thesis by blast
qed

text \<open>
  The claim as it is written covers every size passed to \<open>init_heap\<close>. With 10 bytes, on a
  successful mapping, the only block records a size of \<open>2 ^ 64 - 14\<close>; a request for
  \<open>2 ^ 64 - 24\<close> bytes then fits, the threshold \<open>size + 24 + 8\<close> wraps to 8, and
  \<open>split_block\<close> puts the new header at \<open>block + 24 + size = block\<close>: the block's \<open>next\<close>
  is the block itself, and no block of the list has \<open>next = NULL\<close>.
\<close>

theorem contiguity_small_init_counterexample:
  "mapped 0x1000 10
   \<and> init_heap 0x1000 10 initial_state = Inr (tiny_heap 10)
   \<and> malloc 0xFFFFFFFFFFFFFFE8 (tiny_heap 10) = Some (Inr (0x1018, cyclic_heap))
   \<and> head_H (heap cyclic_heap) = 0x1000
   \<and> next_B (mem cyclic_heap 0x1000) = 0x1000
   \<and> 0x1000 \<noteq> NULL"
proof -
  have "(10 :: size_t) \<noteq> 0" and "(10 :: size_t) < sizeof_Block"
    by (simp_all add: sizeof_Block_def)
  from init_tiny [OF this] tiny_cyclic show ?thesis
    by (simp add: cyclic_heap_def tiny_heap_def NULL_def)
qed


section \<open>First fit\<close>

text \<open>On the cyclic heap the search runs forever, whatever the size asked for: the only
  block is busy and is its own successor.\<close>

lemma find_loop_cyclic_aux:
  "find_loop sz cur st = Some r \<Longrightarrow> \<not> (st = cyclic_heap \<and> cur = 0x1000)"
proof (induction rule: find_loop.raw_induct [rotated 1, consumes 1])
  case (1 find_loop' sz cur st r)
  show ?case
  proof
    assume a: "st = cyclic_heap \<and> cur = 0x1000"
    then have ok: "hdr_ok st cur"
      by (simp add: hdr_ok_def in_pages_def cyclic_heap_def tiny_heap_def)
    from a have f: "\<not> free_B (mem st cur)" "next_B (mem st cur) = 0x1000" "cur \<noteq> NULL"
      by (simp_all add: cyclic_heap_def NULL_def)
    with 1(2) ok have "find_loop' sz 0x1000 st = Some r"
      by (simp add: fits_ok load_ok)
    from 1(1) [OF this] a show False by simp
  qed
qed

lemma find_free_block_cyclic: "find_free_block sz cyclic_heap = None"
proof (cases "find_free_block sz cyclic_heap")
  case None
  then show ?thesis .
next
  case (Some r)
  then have "find_loop sz 0x1000 cyclic_heap = Some r"
    by (simp add: find_free_block_def cyclic_heap_def tiny_heap_def)
  from find_loop_cyclic_aux [OF this] show ?thesis by simp
qed

text \<open>
  Claim C2, amended. On a heap state whose block list from \<open>head\<close> ends in \<open>NULL\<close>,
  \<open>find_free_block\<close> returns, and leaves the state as it was. A result other than \<open>NULL\<close>
  is a block of the list that is free and at least as large as the request, and no block
  before it in the list is; the result is \<open>NULL\<close> only if no block of the list
  qualifies. In particular, when the free blocks have the sizes 16, 4096 and 32 in list
  order, a request for 20 bytes returns the second free block, the one of 4096 bytes. On
  a well-formed heap the order of the list is the order of the addresses.
\<close>

theorem find_free_block_first_fit:
  assumes "heap_list st xs"
  shows "\<exists>r. find_free_block sz st = Some (Inr (r, st))
     \<and> (r = NULL \<longrightarrow> (\<forall>x\<in>set xs. \<not> (free_B (mem st x) \<and> sz \<le> size_B (mem st x))))
     \<and> (r \<noteq> NULL \<longrightarrow> free_B (mem st r) \<and> sz \<le> size_B (mem st r)
           \<and> (\<exists>ys zs. xs = ys @ r # zs
                \<and> (\<forall>y\<in>set ys. \<not> (free_B (mem st y) \<and> sz \<le> size_B (mem st y)))))
     \<and> (sz = 20 \<and> map (\<lambda>a. size_B (mem st a)) (filter (\<lambda>a. free_B (mem st a)) xs) = [16, 4096, 32]
           \<longrightarrow> r = filter (\<lambda>a. free_B (mem st a)) xs ! 1 \<and> size_B (mem st r) = 4096)
     \<and> (heap_ok st xs \<longrightarrow> sorted_wrt (<) xs)"
proof -
  let ?r = "first_fit (mem st) sz xs"
  from assms have bl: "block_list (mem st) (head_H (heap st)) xs" by (simp add: heap_list_def)
  have "find_free_block sz st = Some (Inr (?r, st))"
    by (rule find_free_block_list [OF assms])
  moreover have "?r = NULL \<longrightarrow> (\<forall>x\<in>set xs. \<not> (free_B (mem st x) \<and> sz \<le> size_B (mem st x)))"
    using first_fit_NULL [OF block_list_no_NULL [OF bl], of "mem st" sz] by simp
  moreover have "?r \<noteq> NULL \<longrightarrow> free_B (mem st ?r) \<and> sz \<le> size_B (mem st ?r)
           \<and> (\<exists>ys zs. xs = ys @ ?r # zs
                \<and> (\<forall>y\<in>set ys. \<not> (free_B (mem st y) \<and> sz \<le> size_B (mem st y))))"
    using first_fit_found [of "mem st" sz xs] first_fit_split [of "mem st" sz xs] by blast
  moreover have "sz = 20 \<and> map (\<lambda>a. size_B (mem st a)) (filter (\<lambda>a. free_B (mem st a)) xs) = [16, 4096, 32]
           \<longrightarrow> ?r = filter (\<lambda>a. free_B (mem st a)) xs ! 1 \<and> size_B (mem st ?r) = 4096"
    using first_fit_example [of "mem st" xs] by auto
  moreover have "heap_ok st xs \<longrightarrow> sorted_wrt (<) xs"
    using tiles_increasing by (auto simp add: heap_ok_def)
  ultimately show ?thesis by blast
qed

theorem find_free_block_first_fit_witness:
  "heap_list example_heap [0x1000, 0x1028, 0x1440, 0x2458]
   \<and> map (\<lambda>a. size_B (mem example_heap a))
        (filter (\<lambda>a. free_B (mem example_heap a)) [0x1000, 0x1028, 0x1440, 0x2458]) = [16, 4096, 32]
   \<and> find_free_block 20 example_heap = Some (Inr (0x1440, example_heap))"
proof -
  let ?xs = "[0x1000, 0x1028, 0x1440, 0x2458] :: addr list"
  have hl: "heap_list example_heap ?xs"
    by (rule heap_ok_list [OF example_heap_ok])
  have fs: "map (\<lambda>a. size_B (mem example_heap a)) (filter (\<lambda>a. free_B (mem example_heap a)) ?xs) = [16, 4096, 32]"
    by (simp add: example_heap_def)
  have nth: "filter (\<lambda>a. free_B (mem example_heap a)) ?xs ! 1 = 0x1440"
    by (simp add: example_heap_def)
  from find_free_block_first_fit [OF hl, of 20] fs nth
  have "find_free_block 20 example_heap = Some (Inr (0x1440, example_heap))"
    by auto
  with hl fs show ?thesis by blast
qed

text \<open>
  The claim as it is written covers every heap state. After \<open>init_heap(10)\<close> on a
  successful mapping and \<open>malloc(2 ^ 64 - 24)\<close> the only block is busy and is its own
  successor: the search of \<open>find_free_block(1)\<close> goes round and never returns, neither a
  block nor \<open>NULL\<close>.
\<close>

theorem find_free_block_cyclic_counterexample:
  "init_heap 0x1000 10 initial_state = Inr (tiny_heap 10)
   \<and> malloc 0xFFFFFFFFFFFFFFE8 (tiny_heap 10) = Some (Inr (0x1018, cyclic_heap))
   \<and> head_H (heap cyclic_heap) = 0x1000
   \<and> mem cyclic_heap 0x1000 = \<lparr>size_B = 0xFFFFFFFFFFFFFFE8, free_B = False, next_B = 0x1000\<rparr>
   \<and> find_free_block 1 cyclic_heap = None"
proof -
  have "(10 :: size_t) \<noteq> 0" and "(10 :: size_t) < sizeof_Block"
    by (simp_all add: sizeof_Block_def)
  from init_tiny(2) [OF this] tiny_cyclic find_free_block_cyclic [of 1] show ?thesis
    by (simp add: cyclic_heap_def tiny_heap_def)
qed

section \<open>Out of memory\<close>

text \<open>
  Claim C7, amended. On a heap state whose block list from \<open>head\<close> ends in \<open>NULL\<close>, when
  every free block of the list is smaller than the request, \<open>malloc\<close> returns \<open>NULL\<close> and
  the state it returns is the state it was given: no header, and nothing else, has
  changed.
\<close>

theorem malloc_out_of_memory:
  assumes "heap_list st xs"
    and "\<forall>x\<in>set xs. free_B (mem st x) \<longrightarrow> size_B (mem st x) < sz"
  shows "malloc sz st = Some (Inr (NULL, st))"
proof -
  from assms(1) have bl: "block_list (mem st) (head_H (heap st)) xs" by (simp add: heap_list_def)
  from assms(2) have "\<forall>x\<in>set xs. \<not> (free_B (mem st x) \<and> sz \<le> size_B (mem st x))"
    by (auto simp add: not_le)
  with first_fit_NULL [OF block_list_no_NULL [OF bl], of "mem st" sz]
  have "first_fit (mem st) sz xs = NULL" by simp
  with assms(1) show ?thesis by (rule malloc_none)
qed

theorem malloc_out_of_memory_witness:
  "heap_list example_heap [0x1000, 0x1028, 0x1440, 0x2458]
   \<and> size_B (mem example_heap 0x1000) < 4097
   \<and> \<not> free_B (mem example_heap 0x1028)
   \<and> size_B (mem example_heap 0x1440) < 4097
   \<and> size_B (mem example_heap 0x2458) < 4097
   \<and> malloc 4097 example_heap = Some (Inr (NULL, example_heap))"
proof -
  let ?xs = "[0x1000, 0x1028, 0x1440, 0x2458] :: addr list"
  have hl: "heap_list example_heap ?xs"
    by (rule heap_ok_list [OF example_heap_ok])
  have sm: "\<forall>x\<in>set ?xs. free_B (mem example_heap x) \<longrightarrow> size_B (mem example_heap x) < 4097"
    by (simp add: example_heap_def)
  have "size_B (mem example_heap 0x1000) < 4097" and "\<not> free_B (mem example_heap 0x1028)"
    and "size_B (mem example_heap 0x1440) < 4097" and "size_B (mem example_heap 0x2458) < 4097"
    by (simp_all add: example_heap_def)
  with malloc_out_of_memory [OF hl sm] hl show ?thesis by blast
qed

text \<open>
  The claim as it is written covers every heap state. On the state reached by
  \<open>init_heap(10)\<close> on a successful mapping and \<open>malloc(2 ^ 64 - 24)\<close>, the only block is
  busy, so no free block is large enough for a request of 1 byte; but the block is its
  own successor and \<open>malloc(1)\<close> never returns, where the claim has it return \<open>NULL\<close>.
\<close>

theorem malloc_cyclic_counterexample:
  "init_heap 0x1000 10 initial_state = Inr (tiny_heap 10)
   \<and> malloc 0xFFFFFFFFFFFFFFE8 (tiny_heap 10) = Some (Inr (0x1018, cyclic_heap))
   \<and> \<not> free_B (mem cyclic_heap 0x1000)
   \<and> next_B (mem cyclic_heap 0x1000) = 0x1000
   \<and> malloc 1 cyclic_heap = None"
proof -
  have "(10 :: size_t) \<noteq> 0" and "(10 :: size_t) < sizeof_Block"
    by (simp_all add: sizeof_Block_def)
  from init_tiny(2) [OF this] tiny_cyclic find_free_block_cyclic [of 1] show ?thesis
    by (simp add: cyclic_heap_def malloc_def)
qed


section \<open>Splitting\<close>

text \<open>
  Claim C3, amended. For a free block at \<open>block\<close> that lies, header and payload, in the
  program's memory, and a \<open>left_size\<close> with
  \<open>block.size \<ge> left_size + sizeof(Block) + MIN_BLOCK_SIZE\<close> (as numbers), \<open>split_block\<close>
  returns; it leaves the left block at its address with size \<open>left_size\<close> and its free flag
  as it was, writes a new header at \<open>block + sizeof(Block) + left_size\<close> (as numbers: right
  after the left block's payload) with size \<open>block.size - sizeof(Block) - left_size\<close> and
  \<open>free = true\<close>, gives the new block the old \<open>next\<close> and makes the left block point to the
  new one. The two blocks end where the one block ended. No header that has no byte in
  common with these two, and neither the global heap nor the output, changes.
\<close>

theorem split_block_partitions:
  assumes "free_B (mem st block)"
    and "unat left_size + unat sizeof_Block + unat MIN_BLOCK_SIZE \<le> unat (size_B (mem st block))"
    and "block_in_pages st block"
  shows "\<exists>st'. split_block block left_size st = Inr st'
     \<and> unat (block + sizeof_Block + left_size) = unat block + unat sizeof_Block + unat left_size
     \<and> mem st' block =
          \<lparr>size_B = left_size, free_B = free_B (mem st block),
           next_B = block + sizeof_Block + left_size\<rparr>
     \<and> mem st' (block + sizeof_Block + left_size) =
          \<lparr>size_B = size_B (mem st block) - sizeof_Block - left_size, free_B = True,
           next_B = next_B (mem st block)\<rparr>
     \<and> unat (size_B (mem st' (block + sizeof_Block + left_size)))
          = unat (size_B (mem st block)) - unat sizeof_Block - unat left_size
     \<and> unat (block + sizeof_Block + left_size) + unat sizeof_Block
          + unat (size_B (mem st' (block + sizeof_Block + left_size)))
          = unat block + unat sizeof_Block + unat (size_B (mem st block))
     \<and> (\<forall>a. unat a + unat sizeof_Block \<le> unat block
             \<or> unat block + unat sizeof_Block \<le> unat a
                \<and> unat a + unat sizeof_Block \<le> unat (block + sizeof_Block + left_size)
             \<or> unat (block + sizeof_Block + left_size) + unat sizeof_Block \<le> unat a
           \<longrightarrow> mem st' a = mem st a)
     \<and> heap st' = heap st \<and> pages st' = pages st \<and> stdout st' = stdout st"
proof -
  let ?nb = "block + sizeof_Block + left_size"
  from assms(3) have lo: "fst (pages st) \<le> unat block"
    and hi: "unat block + 24 + unat (size_B (mem st block)) \<le> snd (pages st)"
    and sp: "unat block + 24 + unat (size_B (mem st block)) \<le> 2 ^ 64"
    by (simp_all add: block_in_pages_def)
  from assms(2) sp have "unat sizeof_Block + unat left_size < 2 ^ 64" by simp
  then have u24: "unat (sizeof_Block + left_size) = 24 + unat left_size"
    by (simp add: unat_add64)
  then have ne: "sizeof_Block + left_size \<noteq> 0" by auto
  from assms(2) sp u24 have "unat block + unat (sizeof_Block + left_size) < 2 ^ 64" by simp
  then have "unat (block + (sizeof_Block + left_size)) = unat block + unat (sizeof_Block + left_size)"
    by (rule unat_add64)
  with u24 have unb: "unat ?nb = unat block + 24 + unat left_size" by (simp add: add.assoc)
  from assms(2) have "unat (size_B (mem st block) - sizeof_Block) = unat (size_B (mem st block)) - 24"
    by (simp add: unat_sub64)
  with assms(2)
  have usz: "unat (size_B (mem st block) - sizeof_Block - left_size)
          = unat (size_B (mem st block)) - 24 - unat left_size"
    by (simp add: unat_sub64)
  from lo hi sp assms(2) have hb: "hdr_ok st block"
    by (simp add: hdr_ok_def in_pages_def)
  from lo hi sp assms(2) unb have hnb: "hdr_ok st ?nb"
    by (simp add: hdr_ok_def in_pages_def)
  from ne have d: "?nb \<noteq> block" by (simp add: add.assoc)
  note eq = split_block_eq [OF hb hnb ne]
  from unb usz assms(2) d show ?thesis
    by (auto simp add: eq)
qed

theorem split_block_partitions_witness:
  "free_B (mem fresh_heap 0x1000)
   \<and> unat (4 :: size_t) + unat sizeof_Block + unat MIN_BLOCK_SIZE
       \<le> unat (size_B (mem fresh_heap 0x1000))
   \<and> block_in_pages fresh_heap 0x1000
   \<and> (\<exists>st'. split_block 0x1000 4 fresh_heap = Inr st'
        \<and> mem st' 0x1000 = \<lparr>size_B = 4, free_B = True, next_B = 0x101C\<rparr>
        \<and> mem st' 0x101C = \<lparr>size_B = 0xFFCC, free_B = True, next_B = NULL\<rparr>)"
proof -
  have f: "free_B (mem fresh_heap 0x1000)"
    and s: "unat (4 :: size_t) + unat sizeof_Block + unat MIN_BLOCK_SIZE
       \<le> unat (size_B (mem fresh_heap 0x1000))"
    and p: "block_in_pages fresh_heap 0x1000"
    by (simp_all add: fresh_heap_def block_in_pages_def)
  from split_block_partitions [OF f s p] obtain st' where
    "split_block 0x1000 4 fresh_heap = Inr st'"
    and "mem st' 0x1000 =
          \<lparr>size_B = 4, free_B = free_B (mem fresh_heap 0x1000), next_B = 0x1000 + sizeof_Block + 4\<rparr>"
    and "mem st' (0x1000 + sizeof_Block + 4) =
          \<lparr>size_B = size_B (mem fresh_heap 0x1000) - sizeof_Block - 4, free_B = True,
           next_B = next_B (mem fresh_heap 0x1000)\<rparr>"
    by blast
  then have "split_block 0x1000 4 fresh_heap = Inr st'
        \<and> mem st' 0x1000 = \<lparr>size_B = 4, free_B = True, next_B = 0x101C\<rparr>
        \<and> mem st' 0x101C = \<lparr>size_B = 0xFFCC, free_B = True, next_B = NULL\<rparr>"
    by (simp add: fresh_heap_def sizeof_Block_def)
  with f s p show ?thesis by blast
qed

text \<open>
  The claim as it is written covers every block that meets the precondition. After
  \<open>init_heap(16)\<close> on a successful mapping the only block is free and records a size of
  \<open>2 ^ 64 - 8\<close>, far more than the page it lies in. With \<open>left_size = 2 ^ 64 - 40\<close> the
  precondition holds, but \<open>block + 24 + left_size\<close> wraps around to \<open>block - 16\<close>: the
  new header is not behind the left block but over the very header it splits, outside the
  program's pages. \<open>split_block\<close>, and \<open>malloc(2 ^ 64 - 40)\<close> which calls it, are killed
  at the first store.
\<close>

theorem split_block_wrap_counterexample:
  "init_heap 0x1000 16 initial_state = Inr (tiny_heap 16)
   \<and> free_B (mem (tiny_heap 16) 0x1000)
   \<and> unat (0xFFFFFFFFFFFFFFD8 :: size_t) + unat sizeof_Block + unat MIN_BLOCK_SIZE
       \<le> unat (size_B (mem (tiny_heap 16) 0x1000))
   \<and> 0x1000 + sizeof_Block + 0xFFFFFFFFFFFFFFD8 = (0xFF0 :: addr)
   \<and> pages (tiny_heap 16) = (0x1000, 0x2000)
   \<and> split_block 0x1000 0xFFFFFFFFFFFFFFD8 (tiny_heap 16) = Inl SIGSEGV
   \<and> malloc 0xFFFFFFFFFFFFFFD8 (tiny_heap 16) = Some (Inl SIGSEGV)"
proof -
  have "(16 :: size_t) \<noteq> 0" and "(16 :: size_t) < sizeof_Block"
    by (simp_all add: sizeof_Block_def)
  note i = init_tiny(2) [OF this]
  have al: "0x1000 + sizeof_Block + 0xFFFFFFFFFFFFFFD8 = (0xFF0 :: addr)"
    by (simp add: sizeof_Block_def)
  have sp: "split_block 0x1000 0xFFFFFFFFFFFFFFD8 (tiny_heap 16) = Inl SIGSEGV"
    by (simp only: split_block_def Let_def al)
       (simp add: load_size_def store_size_def in_pages_def tiny_heap_def)
  have hl: "heap_list (tiny_heap 16) [0x1000]"
    by (simp add: heap_list_def tiny_heap_def NULL_def hdr_ok_def in_pages_def)
  have ff: "first_fit (mem (tiny_heap 16)) 0xFFFFFFFFFFFFFFD8 [0x1000] = 0x1000"
    by (simp add: first_fit_def tiny_heap_def sizeof_Block_def)
  have th: "(0xFFFFFFFFFFFFFFD8 :: size_t) + sizeof_Block + MIN_BLOCK_SIZE
      \<le> size_B (mem (tiny_heap 16) 0x1000)"
    by (simp add: tiny_heap_def sizeof_Block_def MIN_BLOCK_SIZE_def)
  have m: "malloc 0xFFFFFFFFFFFFFFD8 (tiny_heap 16) = Some (Inl SIGSEGV)"
    using th by (simp only: malloc_list [OF hl] ff sp) (simp add: NULL_def)
  from i al sp m show ?thesis
    by (simp add: tiny_heap_def sizeof_Block_def)
qed


section \<open>Initialisation and the mapping\<close>

lemma mmap_result:
  "fst (mmap os sz st) = MAP_FAILED \<longleftrightarrow> \<not> (sz \<noteq> 0 \<and> mapped os sz)"
proof -
  have "mapped os sz \<Longrightarrow> os \<noteq> MAP_FAILED"
    using mapped_room [of os sz] by (auto simp add: unat_MAP_FAILED)
  then show ?thesis by (auto simp add: mmap_def)
qed

text \<open>
  Claim C6. When \<open>mmap\<close> cannot make the mapping (it returns \<open>MAP_FAILED\<close>),
  \<open>init_heap\<close> does not return: the process is killed, at the first store through the
  result, so no caller goes on with the heap. When \<open>mmap\<close> succeeds, \<open>init_heap\<close> returns
  with the address of the mapping and the size in the global heap and one header at that
  address: \<open>size = requested_size - sizeof(Block)\<close>, \<open>free = true\<close>, \<open>next = NULL\<close>; for a
  size of at least \<open>sizeof(Block)\<close> the difference is that of the numbers and the heap is
  well-formed with this one block.
\<close>

theorem init_heap_formats:
  "(fst (mmap os sz st) = MAP_FAILED \<longrightarrow> init_heap os sz st = Inl SIGSEGV)
   \<and> (fst (mmap os sz st) \<noteq> MAP_FAILED \<longrightarrow>
        (\<exists>st'. init_heap os sz st = Inr st'
           \<and> heap st' = \<lparr>head_H = fst (mmap os sz st), size_H = sz\<rparr>
           \<and> mem st' (fst (mmap os sz st))
                = \<lparr>size_B = sz - sizeof_Block, free_B = True, next_B = NULL\<rparr>
           \<and> stdout st' = stdout st
           \<and> (sizeof_Block \<le> sz \<longrightarrow>
                 unat (size_B (mem st' (fst (mmap os sz st)))) = unat sz - unat sizeof_Block
                 \<and> heap_ok st' [fst (mmap os sz st)])))"
proof (cases "sz \<noteq> 0 \<and> mapped os sz")
  case False
  with init_heap_refused [OF False, of st] mmap_result [of os sz st] show ?thesis by simp
next
  case True
  then have m: "fst (mmap os sz st) = os" by (simp add: mmap_def)
  from True have ne: "os \<noteq> MAP_FAILED" using mmap_result [of os sz st] m by auto
  have "sizeof_Block \<le> sz \<longrightarrow> unat (sz - sizeof_Block) = unat sz - unat sizeof_Block"
    by (simp add: unat_sub64 word_le_nat_alt)
  moreover have "sizeof_Block \<le> sz \<longrightarrow>
      heap_ok (st\<lparr>mem := (mem st)(os := \<lparr>size_B = sz - sizeof_Block, free_B = True, next_B = NULL\<rparr>),
            heap := \<lparr>head_H = os, size_H = sz\<rparr>,
            pages := (unat os, unat os + round_up (unat sz))\<rparr>) [os]"
    using init_heap_ok [of os sz st] True by (auto simp add: init_heap_mapped)
  ultimately show ?thesis
    using True ne by (simp add: m init_heap_mapped)
qed

theorem init_heap_formats_witness:
  "fst (mmap MAP_FAILED 0x10000 initial_state) = MAP_FAILED
   \<and> init_heap MAP_FAILED 0x10000 initial_state = Inl SIGSEGV
   \<and> fst (mmap 0x1000 0x10000 initial_state) = 0x1000
   \<and> 0x1000 \<noteq> MAP_FAILED
   \<and> sizeof_Block \<le> 0x10000
   \<and> init_heap 0x1000 0x10000 initial_state = Inr fresh_heap
   \<and> heap fresh_heap = \<lparr>head_H = 0x1000, size_H = 0x10000\<rparr>
   \<and> mem fresh_heap 0x1000 = \<lparr>size_B = 0xFFE8, free_B = True, next_B = NULL\<rparr>
   \<and> heap_ok fresh_heap [0x1000]"
proof -
  have f: "fst (mmap MAP_FAILED 0x10000 initial_state) = MAP_FAILED"
    by (simp add: mmap_result) (simp add: mapped_def unat_MAP_FAILED PAGE_SIZE_def)
  have m: "fst (mmap 0x1000 0x10000 initial_state) = 0x1000"
    by (simp add: mmap_def mapped_def NULL_def PAGE_SIZE_def)
  have ne: "(0x1000 :: addr) \<noteq> MAP_FAILED" by (simp add: MAP_FAILED_def)
  have s: "sizeof_Block \<le> 0x10000" by (simp add: sizeof_Block_def)
  from init_heap_formats [where os = MAP_FAILED and sz = "0x10000" and st = initial_state] f
  have 1: "init_heap MAP_FAILED 0x10000 initial_state = Inl SIGSEGV" by simp
  from init_heap_formats [where os = "0x1000" and sz = "0x10000" and st = initial_state] m ne s
  have 2: "heap_ok fresh_heap [0x1000]" by (simp add: init_fresh)
  from f 1 m ne s 2 init_fresh show ?thesis by (simp add: fresh_heap_def)
qed

text \<open>
  Claim C10, amended. For every requested size from 1 to \<open>sizeof(Block) - 1\<close> on a
  successful mapping, \<open>init_heap\<close> returns (there is no check of the size): the first
  block is free, ends the list, and records the size \<open>2 ^ 64 + size - sizeof(Block)\<close>, a
  value of at least \<open>2 ^ 64 - 24\<close>.
\<close>

theorem init_heap_underflow:
  assumes "sz < sizeof_Block" and "sz \<noteq> 0" and "mapped memory sz"
  shows "\<exists>st'. init_heap memory sz st = Inr st'
   \<and> head_H (heap st') = memory
   \<and> size_B (mem st' memory) = sz - sizeof_Block
   \<and> unat (size_B (mem st' memory)) = 2 ^ 64 + unat sz - unat sizeof_Block
   \<and> 2 ^ 64 - 24 \<le> unat (size_B (mem st' memory))
   \<and> free_B (mem st' memory)
   \<and> next_B (mem st' memory) = NULL"
proof -
  from assms(1) have lt: "unat sz < 24" by (simp add: word_less_nat_alt)
  then have "unat (sz - sizeof_Block) = 2 ^ 64 + unat sz - 24"
    by (simp add: unat_sub_if_size word_size)
  then show ?thesis by (simp add: init_heap_mapped [OF assms(3) assms(2)])
qed

theorem init_heap_underflow_witness:
  "(10 :: size_t) < sizeof_Block \<and> (10 :: size_t) \<noteq> 0 \<and> mapped 0x1000 10
   \<and> init_heap 0x1000 10 initial_state = Inr (tiny_heap 10)
   \<and> size_B (mem (tiny_heap 10) 0x1000) = 0xFFFFFFFFFFFFFFF2
   \<and> unat (size_B (mem (tiny_heap 10) 0x1000)) = 2 ^ 64 - 14"
proof -
  have h: "(10 :: size_t) < sizeof_Block" and z: "(10 :: size_t) \<noteq> 0"
    by (simp_all add: sizeof_Block_def)
  note t = init_tiny [OF z h]
  from init_heap_underflow [OF h z t(1), where st = initial_state] t(2)
  have "size_B (mem (tiny_heap 10) 0x1000) = 0xFFFFFFFFFFFFFFF2
   \<and> unat (size_B (mem (tiny_heap 10) 0x1000)) = 2 ^ 64 - 14"
    by (simp add: sizeof_Block_def)
  with h z t show ?thesis by simp
qed

text \<open>
  The claim as it is written covers every size below \<open>sizeof(Block)\<close>. The size 0 is one
  of them: \<open>mmap\<close> refuses a length of 0 and returns \<open>MAP_FAILED\<close>, whatever the kernel
  would have chosen, and \<open>init_heap\<close> is killed at its first store. No size is recorded.
\<close>

theorem init_heap_zero_counterexample:
  "(0 :: size_t) < sizeof_Block
   \<and> fst (mmap 0x1000 0 initial_state) = MAP_FAILED
   \<and> init_heap 0x1000 0 initial_state = Inl SIGSEGV"
  by (simp add: sizeof_Block_def mmap_def init_heap_refused)


section \<open>Requests for 0 bytes\<close>

lemma malloc_split_list:
  assumes hl: "heap_list st xs" and b: "b = first_fit (mem st) sz xs" "b \<noteq> NULL"
    and th: "sz + sizeof_Block + MIN_BLOCK_SIZE \<le> size_B (mem st b)"
    and nb: "hdr_ok st (b + sizeof_Block + sz)" and ne: "sizeof_Block + sz \<noteq> 0"
  shows "malloc sz st = Some (Inr (b + sizeof_Block,
     st\<lparr>mem := (mem st)
        (b + sizeof_Block + sz :=
           \<lparr>size_B = size_B (mem st b) - sizeof_Block - sz, free_B = True,
            next_B = next_B (mem st b)\<rparr>,
         b := \<lparr>size_B = sz, free_B = False, next_B = b + sizeof_Block + sz\<rparr>)\<rparr>))"
proof -
  let ?s = "st\<lparr>mem := (mem st)(b + sizeof_Block + sz :=
                \<lparr>size_B = size_B (mem st b) - sizeof_Block - sz, free_B = True,
                 next_B = next_B (mem st b)\<rparr>,
             b := \<lparr>size_B = sz, free_B = free_B (mem st b), next_B = b + sizeof_Block + sz\<rparr>)\<rparr>"
  from b first_fit_found [of "mem st" sz xs] hl have hb: "hdr_ok st b"
    by (auto simp add: heap_list_def list_all_iff)
  have d: "b + sizeof_Block + sz \<noteq> b" using ne by (simp add: add.assoc)
  have sp: "split_block b sz st = Inr ?s" by (rule split_block_eq [OF hb nb ne])
  have sf: "store_free b False ?s = Inr (st\<lparr>mem := (mem st)
        (b + sizeof_Block + sz :=
           \<lparr>size_B = size_B (mem st b) - sizeof_Block - sz, free_B = True,
            next_B = next_B (mem st b)\<rparr>,
         b := \<lparr>size_B = sz, free_B = False, next_B = b + sizeof_Block + sz\<rparr>)\<rparr>)"
    using hb d by (simp add: store_free_def hdr_ok_fields set_free_def)
  from b th sp sf show ?thesis
    by (simp add: malloc_list [OF hl])
qed

lemma tiny_to_edge:
  "mallocs [4000, 0, 0] (tiny_heap 10) = Some (Inr ([0x1018, 0x1FD0, 0x1FE8], edge_heap))"
proof -
  define s1 where "s1 = (tiny_heap 10)
     \<lparr>mem := (mem (tiny_heap 10))
        (0x1000 + sizeof_Block + 4000 :=
           \<lparr>size_B = size_B (mem (tiny_heap 10) 0x1000) - sizeof_Block - 4000, free_B = True,
            next_B = next_B (mem (tiny_heap 10) 0x1000)\<rparr>,
         0x1000 := \<lparr>size_B = 4000, free_B = False, next_B = 0x1000 + sizeof_Block + 4000\<rparr>)\<rparr>"
  define s2 where "s2 = s1
     \<lparr>mem := (mem s1)
        (0x1FB8 + sizeof_Block + 0 :=
           \<lparr>size_B = size_B (mem s1 0x1FB8) - sizeof_Block - 0, free_B = True,
            next_B = next_B (mem s1 0x1FB8)\<rparr>,
         0x1FB8 := \<lparr>size_B = 0, free_B = False, next_B = 0x1FB8 + sizeof_Block + 0\<rparr>)\<rparr>"
  define s3 where "s3 = s2
     \<lparr>mem := (mem s2)
        (0x1FD0 + sizeof_Block + 0 :=
           \<lparr>size_B = size_B (mem s2 0x1FD0) - sizeof_Block - 0, free_B = True,
            next_B = next_B (mem s2 0x1FD0)\<rparr>,
         0x1FD0 := \<lparr>size_B = 0, free_B = False, next_B = 0x1FD0 + sizeof_Block + 0\<rparr>)\<rparr>"
  note defs = s1_def s2_def s3_def tiny_heap_def sizeof_Block_def MIN_BLOCK_SIZE_def
  have l0: "heap_list (tiny_heap 10) [0x1000]"
    and l1: "heap_list s1 [0x1000, 0x1FB8]"
    and l2: "heap_list s2 [0x1000, 0x1FB8, 0x1FD0]"
    by (simp_all add: heap_list_def defs NULL_def hdr_ok_def in_pages_def)
  have nn: "(0x1000 :: addr) \<noteq> NULL" "(0x1FB8 :: addr) \<noteq> NULL" "(0x1FD0 :: addr) \<noteq> NULL"
    by (simp_all add: NULL_def)
  have f0: "0x1000 = first_fit (mem (tiny_heap 10)) 4000 [0x1000]"
    and f1: "0x1FB8 = first_fit (mem s1) 0 [0x1000, 0x1FB8]"
    and f2: "0x1FD0 = first_fit (mem s2) 0 [0x1000, 0x1FB8, 0x1FD0]"
    by (simp_all add: first_fit_def defs)
  have t0: "(4000 :: size_t) + sizeof_Block + MIN_BLOCK_SIZE \<le> size_B (mem (tiny_heap 10) 0x1000)"
    and t1: "(0 :: size_t) + sizeof_Block + MIN_BLOCK_SIZE \<le> size_B (mem s1 0x1FB8)"
    and t2: "(0 :: size_t) + sizeof_Block + MIN_BLOCK_SIZE \<le> size_B (mem s2 0x1FD0)"
    by (simp_all add: defs)
  have h0: "hdr_ok (tiny_heap 10) (0x1000 + sizeof_Block + 4000)"
    and h1: "hdr_ok s1 (0x1FB8 + sizeof_Block + 0)"
    and h2: "hdr_ok s2 (0x1FD0 + sizeof_Block + 0)"
    by (simp_all add: defs hdr_ok_def in_pages_def)
  have z: "sizeof_Block + (4000 :: size_t) \<noteq> 0" "sizeof_Block + (0 :: size_t) \<noteq> 0"
    by (simp_all add: sizeof_Block_def)
  have a: "(0x1000 :: addr) + sizeof_Block = 0x1018" "(0x1FB8 :: addr) + sizeof_Block = 0x1FD0"
    "(0x1FD0 :: addr) + sizeof_Block = 0x1FE8"
    by (simp_all add: sizeof_Block_def)
  have m0: "malloc 4000 (tiny_heap 10) = Some (Inr (0x1018, s1))"
    using malloc_split_list [OF l0 f0 nn(1) t0 h0 z(1)] by (simp only: a s1_def)
  have m1: "malloc 0 s1 = Some (Inr (0x1FD0, s2))"
    using malloc_split_list [OF l1 f1 nn(2) t1 h1 z(2)] by (simp only: a s2_def)
  have m2: "malloc 0 s2 = Some (Inr (0x1FE8, s3))"
    using malloc_split_list [OF l2 f2 nn(3) t2 h2 z(2)] by (simp only: a s3_def)
  have "mem s3 = mem edge_heap"
    by (auto simp add: fun_eq_iff defs edge_heap_def NULL_def)
  then have e: "s3 = edge_heap"
    by (simp add: defs edge_heap_def)
  from m0 m1 m2 show ?thesis by (simp add: e)
qed

lemma edge_heap_list: "heap_list edge_heap [0x1000, 0x1FB8, 0x1FD0, 0x1FE8]"
  by (simp add: heap_list_def edge_heap_def tiny_heap_def NULL_def hdr_ok_def in_pages_def)

lemma malloc_edge: "malloc 0 edge_heap = Some (Inl SIGSEGV)"
proof -
  have ff: "first_fit (mem edge_heap) 0 [0x1000, 0x1FB8, 0x1FD0, 0x1FE8] = 0x1FE8"
    by (simp add: first_fit_def edge_heap_def)
  have th: "(0 :: size_t) + sizeof_Block + MIN_BLOCK_SIZE \<le> size_B (mem edge_heap 0x1FE8)"
    by (simp add: edge_heap_def sizeof_Block_def MIN_BLOCK_SIZE_def)
  have al: "0x1FE8 + sizeof_Block + 0 = (0x2000 :: addr)"
    by (simp add: sizeof_Block_def)
  have sp: "split_block 0x1FE8 0 edge_heap = Inl SIGSEGV"
    by (simp only: split_block_def Let_def al)
       (simp add: load_size_def store_size_def in_pages_def edge_heap_def tiny_heap_def)
  from th show ?thesis
    by (simp only: malloc_list [OF edge_heap_list] ff sp) (simp add: NULL_def)
qed

text \<open>
  Claim C9, amended. On a well-formed heap with at least one free block, \<open>malloc(0)\<close>
  returns the address just past the header of the first free block of the list, and that
  address is not \<open>NULL\<close>. If that block has at least \<open>sizeof(Block) + MIN_BLOCK_SIZE\<close>
  bytes it is split at size 0: afterwards the heap is well-formed again, with a new free
  block right after the header, and the block itself is in the list, busy, with a payload
  of 0 bytes.
\<close>

theorem malloc_zero:
  assumes "heap_ok st xs" and "\<exists>x\<in>set xs. free_B (mem st x)"
  shows "\<exists>b st' ys zs. malloc 0 st = Some (Inr (b + sizeof_Block, st'))
     \<and> b + sizeof_Block \<noteq> NULL
     \<and> xs = ys @ b # zs \<and> free_B (mem st b) \<and> (\<forall>y\<in>set ys. \<not> free_B (mem st y))
     \<and> (unat sizeof_Block + unat MIN_BLOCK_SIZE \<le> unat (size_B (mem st b)) \<longrightarrow>
           mem st' b = \<lparr>size_B = 0, free_B = False, next_B = b + sizeof_Block\<rparr>
           \<and> heap_ok st' (ys @ b # (b + sizeof_Block) # zs)
           \<and> unat (size_B (mem st' b)) < unat MIN_BLOCK_SIZE)"
proof -
  let ?b = "first_fit (mem st) 0 xs"
  from assms(1) have bl: "block_list (mem st) (head_H (heap st)) xs" by (simp add: heap_ok_def)
  from assms(2) first_fit_NULL [OF block_list_no_NULL [OF bl], of "mem st" 0]
  have nn: "?b \<noteq> NULL" by auto
  from first_fit_found [OF nn] have bin: "?b \<in> set xs" and fr: "free_B (mem st ?b)" by simp_all
  from first_fit_split [OF nn] obtain ys zs where xs: "xs = ys @ ?b # zs"
    and before: "\<forall>y\<in>set ys. \<not> free_B (mem st y)" by auto
  from heap_ok_bounds [OF assms(1) bin] have "unat ?b + unat sizeof_Block < 2 ^ 64" by simp
  then have "unat (?b + sizeof_Block) = unat ?b + 24" by (simp add: unat_add64)
  then have pn: "?b + sizeof_Block \<noteq> NULL" by (auto simp add: NULL_def)
  show ?thesis
  proof (cases "unat (0 :: size_t) + 24 + 8 \<le> unat (size_B (mem st ?b))")
    case True
    let ?m = "(mem st)(?b + sizeof_Block + 0 :=
                 \<lparr>size_B = size_B (mem st ?b) - sizeof_Block - 0, free_B = True, next_B = next_B (mem st ?b)\<rparr>,
               ?b := \<lparr>size_B = 0, free_B = False, next_B = ?b + sizeof_Block + 0\<rparr>)"
    note sp = malloc_split [OF assms(1) refl nn True refl refl]
    have "?b \<notin> set ys" using before fr by auto
    then have "ins_after ?b (?b + sizeof_Block) (ys @ ?b # zs) = ys @ ?b # (?b + sizeof_Block) # zs"
      by (induction ys) auto
    with sp(2) xs have "heap_ok (st\<lparr>mem := ?m\<rparr>) (ys @ ?b # (?b + sizeof_Block) # zs)" by simp
    with sp(1) pn xs fr before show ?thesis
      by (intro exI [of _ ?b] exI [of _ "st\<lparr>mem := ?m\<rparr>"] exI [of _ ys] exI [of _ zs]) simp
  next
    case False
    note wh = malloc_whole [OF assms(1) refl nn False]
    from wh(1) pn xs fr before False show ?thesis
      by (intro exI [of _ ?b] exI [of _ "set_free ?b False st"] exI [of _ ys] exI [of _ zs]) simp
  qed
qed

theorem malloc_zero_witness:
  "heap_ok fresh_heap [0x1000]
   \<and> (\<exists>x\<in>set [0x1000]. free_B (mem fresh_heap x))
   \<and> (\<exists>st'. malloc 0 fresh_heap = Some (Inr (0x1018, st'))
         \<and> mem st' 0x1000 = \<lparr>size_B = 0, free_B = False, next_B = 0x1018\<rparr>
         \<and> heap_ok st' [0x1000, 0x1018])"
proof -
  have fr: "\<exists>x\<in>set [0x1000]. free_B (mem fresh_heap x)" by (simp add: fresh_heap_def)
  have big: "unat sizeof_Block + unat MIN_BLOCK_SIZE \<le> unat (size_B (mem fresh_heap 0x1000))"
    by (simp add: fresh_heap_def)
  from malloc_zero [OF fresh_heap_ok fr] obtain b st' ys zs where
    m: "malloc 0 fresh_heap = Some (Inr (b + sizeof_Block, st'))" and xs: "[0x1000] = ys @ b # zs"
    and sp: "unat sizeof_Block + unat MIN_BLOCK_SIZE \<le> unat (size_B (mem fresh_heap b)) \<longrightarrow>
           mem st' b = \<lparr>size_B = 0, free_B = False, next_B = b + sizeof_Block\<rparr>
           \<and> heap_ok st' (ys @ b # (b + sizeof_Block) # zs)
           \<and> unat (size_B (mem st' b)) < unat MIN_BLOCK_SIZE"
    by blast
  from xs have b: "b = 0x1000" "ys = []" "zs = []" by (auto simp add: Cons_eq_append_conv)
  with m sp big have "malloc 0 fresh_heap = Some (Inr (0x1018, st'))
         \<and> mem st' 0x1000 = \<lparr>size_B = 0, free_B = False, next_B = 0x1018\<rparr>
         \<and> heap_ok st' [0x1000, 0x1018]"
    by (simp add: sizeof_Block_def)
  with fresh_heap_ok fr show ?thesis by blast
qed

text \<open>
  The claim as it is written covers every heap state with a free block. After
  \<open>init_heap(10)\<close> on a successful mapping, \<open>malloc(4000)\<close> and two calls \<open>malloc(0)\<close>, the
  list ends in a free block whose header takes the last 24 bytes of the one page the
  program has, and whose recorded size is close to \<open>2 ^ 64\<close>. A third \<open>malloc(0)\<close> finds
  that block and splits it: the new header would start at the first byte after the
  page, and the call is killed at the store instead of returning an address.
\<close>

theorem malloc_zero_edge_counterexample:
  "init_heap 0x1000 10 initial_state = Inr (tiny_heap 10)
   \<and> mallocs [4000, 0, 0] (tiny_heap 10) = Some (Inr ([0x1018, 0x1FD0, 0x1FE8], edge_heap))
   \<and> heap_list edge_heap [0x1000, 0x1FB8, 0x1FD0, 0x1FE8]
   \<and> free_B (mem edge_heap 0x1FE8)
   \<and> pages edge_heap = (0x1000, 0x2000)
   \<and> 0x1FE8 + sizeof_Block + 0 = (0x2000 :: addr)
   \<and> malloc 0 edge_heap = Some (Inl SIGSEGV)"
proof -
  have "(10 :: size_t) \<noteq> 0" and "(10 :: size_t) < sizeof_Block"
    by (simp_all add: sizeof_Block_def)
  from init_tiny(2) [OF this] tiny_to_edge edge_heap_list malloc_edge show ?thesis
    by (simp add: edge_heap_def tiny_heap_def sizeof_Block_def)
qed


section \<open>The heap walk\<close>

lemma printf_buffered:
  "stdout_buffer st = Some buf \<Longrightarrow> printf txt st = Some (Inr (st\<lparr>stdout := stdout st @ txt\<rparr>))"
  by (simp add: printf_def)

lemma hdr_ok_stdout [simp]: "hdr_ok (st\<lparr>stdout := s\<rparr>) = hdr_ok st"
  by (simp add: fun_eq_iff hdr_ok_def in_pages_def)

lemma print_loop_list:
  "block_list (mem st) p xs \<Longrightarrow> list_all (hdr_ok st) xs \<Longrightarrow> stdout_buffer st = Some buf \<Longrightarrow>
     print_loop p st =
       Some (Inr (st\<lparr>stdout := stdout st
          @ concat (map (\<lambda>a. format_line (free_B (mem st a)) a (size_B (mem st a))) xs)\<rparr>))"
proof (induction xs arbitrary: p st)
  case Nil
  then show ?case by (simp add: print_loop.simps)
next
  case (Cons x xs)
  let ?st = "st\<lparr>stdout := stdout st @ format_line (free_B (mem st x)) x (size_B (mem st x))\<rparr>"
  from Cons.prems have p: "p = x" "x \<noteq> NULL" and h: "hdr_ok st x"
    and 1: "block_list (mem ?st) (next_B (mem ?st x)) xs"
    and 2: "list_all (hdr_ok ?st) xs" and 3: "stdout_buffer ?st = Some buf"
    by simp_all
  from h have h': "hdr_ok ?st x" by simp
  have pr: "printf (format_line (free_B (mem st x)) x (size_B (mem st x))) st = Some (Inr ?st)"
    using Cons.prems(3) by (rule printf_buffered)
  from Cons.IH [OF 1 2 3] p pr show ?case
    by (subst print_loop.simps) (simp add: load_ok [OF h] load_ok [OF h'])
qed

lemma print_heap_fresh: "print_heap fresh_heap = Some (Inr after_walk)"
proof -
  let ?s1 = "fresh_heap
     \<lparr>mem := (mem initial_state)
        (0x1000 := \<lparr>size_B = 0x1000, free_B = False, next_B = 0x2018\<rparr>,
         0x2018 := \<lparr>size_B = 0xEFD0, free_B = True, next_B = NULL\<rparr>)\<rparr>"
  define s2 where "s2 = ?s1\<lparr>stdout_buffer := Some 0x1018,
                 stdout := ''FREE start: 0x1000, size: 0xFFE8'' @ [CHR 0x0A]\<rparr>"
  have ff: "0x1000 = first_fit (mem fresh_heap) 0x1000 [0x1000]"
    by (simp add: first_fit_def fresh_heap_def)
  have nn: "(0x1000 :: addr) \<noteq> NULL" by (simp add: NULL_def)
  have big: "unat (0x1000 :: size_t) + 24 + 8 \<le> unat (size_B (mem fresh_heap 0x1000))"
    by (simp add: fresh_heap_def)
  from malloc_split(1) [OF fresh_heap_ok ff nn big refl refl]
  have m: "malloc 0x1000 fresh_heap = Some (Inr (0x1018, ?s1))"
    by (simp add: sizeof_Block_def fresh_heap_def fun_upd_twist)
  have bs: "stdout_bufsize fresh_heap = 0x1000" "stdout_buffer fresh_heap = None"
    "stdout ?s1 = []"
    by (simp_all add: fresh_heap_def initial_state_def)
  have ln: "format_line True 0x1000 0xFFE8 = ''FREE start: 0x1000, size: 0xFFE8'' @ [CHR 0x0A]"
    by (simp add: format_line_def hexX.simps hex_digit_def)
  have pr: "printf (format_line True 0x1000 0xFFE8) fresh_heap = Some (Inr s2)"
    by (simp only: printf_def bs m ln) (simp add: s2_def fresh_heap_def initial_state_def)
  have h: "hdr_ok fresh_heap 0x1000" "hdr_ok s2 0x1000"
    by (simp_all add: s2_def hdr_ok_def in_pages_def fresh_heap_def)
  have f: "free_B (mem fresh_heap 0x1000)" "size_B (mem fresh_heap 0x1000) = 0xFFE8"
    "next_B (mem s2 0x1000) = 0x2018"
    by (simp_all add: s2_def fresh_heap_def)
  have bl: "block_list (mem s2) 0x2018 [0x2018]" and la: "list_all (hdr_ok s2) [0x2018]"
    and sb: "stdout_buffer s2 = Some 0x1018"
    by (simp_all add: s2_def NULL_def hdr_ok_def in_pages_def fresh_heap_def)
  have rest: "print_loop 0x2018 s2 = Some (Inr after_walk)"
    unfolding print_loop_list [OF bl la sb]
    by (simp add: s2_def after_walk_def format_line_def hexX.simps hex_digit_def)
  have "print_loop 0x1000 fresh_heap = Some (Inr after_walk)"
    by (subst print_loop.simps) (simp add: load_ok [OF h(1)] load_ok [OF h(2)] f pr rest nn)
  then show ?thesis by (simp add: print_heap_def fresh_heap_def)
qed

text \<open>
  Claim C8, amended. Let the block list from \<open>head\<close> end in \<open>NULL\<close>, with every header
  in the program's memory, and let standard output have its buffer already, a buffer
  that has no byte in common with a header of the list. Then \<open>print_heap\<close> returns, it
  appends one line per block, in list order, with the status, the address and the size
  of the block, it leaves every header and the global \<open>heap\<close> as they were, and a second
  walk appends the same text.
\<close>

theorem print_heap_read_only:
  assumes "heap_list st xs" and "buffer_clear st xs"
  shows "\<exists>st1 st2. print_heap st = Some (Inr st1) \<and> print_heap st1 = Some (Inr st2)
     \<and> stdout st1 = stdout st
          @ concat (map (\<lambda>a. format_line (free_B (mem st a)) a (size_B (mem st a))) xs)
     \<and> stdout st2 = stdout st1
          @ concat (map (\<lambda>a. format_line (free_B (mem st a)) a (size_B (mem st a))) xs)
     \<and> mem st1 = mem st \<and> heap st1 = heap st \<and> mem st2 = mem st \<and> heap st2 = heap st"
proof -
  let ?txt = "concat (map (\<lambda>a. format_line (free_B (mem st a)) a (size_B (mem st a))) xs)"
  let ?st1 = "st\<lparr>stdout := stdout st @ ?txt\<rparr>"
  from assms(2) obtain buf where sb: "stdout_buffer st = Some buf"
    by (auto simp add: buffer_clear_def split: option.splits)
  from assms(1) have bl: "block_list (mem st) (head_H (heap st)) xs"
    and la: "list_all (hdr_ok st) xs"
    by (simp_all add: heap_list_def)
  have 1: "print_heap st = Some (Inr ?st1)"
    by (simp add: print_heap_def print_loop_list [OF bl la sb])
  from bl have bl1: "block_list (mem ?st1) (head_H (heap ?st1)) xs" by simp
  from la have la1: "list_all (hdr_ok ?st1) xs" by simp
  from sb have sb1: "stdout_buffer ?st1 = Some buf" by simp
  have 2: "print_heap ?st1 = Some (Inr (?st1\<lparr>stdout := stdout ?st1 @ ?txt\<rparr>))"
    unfolding print_heap_def print_loop_list [OF bl1 la1 sb1] by simp
  from 1 2 show ?thesis by simp
qed

theorem print_heap_read_only_witness:
  "heap_list example_heap [0x1000, 0x1028, 0x1440, 0x2458]
   \<and> buffer_clear example_heap [0x1000, 0x1028, 0x1440, 0x2458]
   \<and> print_heap example_heap = Some (Inr (example_heap\<lparr>stdout := [CHR 0x0A] @
        ''FREE start: 0x1000, size: 0x10'' @ [CHR 0x0A] @
        ''BUSY start: 0x1028, size: 0x400'' @ [CHR 0x0A] @
        ''FREE start: 0x1440, size: 0x1000'' @ [CHR 0x0A] @
        ''FREE start: 0x2458, size: 0x20'' @ [CHR 0x0A]\<rparr>))"
proof -
  let ?xs = "[0x1000, 0x1028, 0x1440, 0x2458] :: addr list"
  have hl: "heap_list example_heap ?xs"
    by (rule heap_ok_list [OF example_heap_ok])
  have bc: "buffer_clear example_heap ?xs"
    by (simp add: buffer_clear_def example_heap_def sizeof_Block_def)
  from print_heap_read_only [OF hl bc] obtain st1 where p: "print_heap example_heap = Some (Inr st1)"
    and out: "stdout st1 = stdout example_heap
          @ concat (map (\<lambda>a. format_line (free_B (mem example_heap a)) a (size_B (mem example_heap a))) ?xs)"
    and m: "mem st1 = mem example_heap" "heap st1 = heap example_heap"
    by blast
  have o: "stdout st1 = [CHR 0x0A] @ ''FREE start: 0x1000, size: 0x10'' @ [CHR 0x0A] @
        ''BUSY start: 0x1028, size: 0x400'' @ [CHR 0x0A] @
        ''FREE start: 0x1440, size: 0x1000'' @ [CHR 0x0A] @
        ''FREE start: 0x2458, size: 0x20'' @ [CHR 0x0A]"
    unfolding out by (simp add: example_heap_def format_line_def hexX.simps hex_digit_def)
  have sb: "stdout_buffer example_heap = Some 0x1040" by (simp add: example_heap_def)
  from p [unfolded print_heap_def print_loop_list [OF hl [unfolded heap_list_def, THEN conjunct1]
      hl [unfolded heap_list_def, THEN conjunct2] sb]]
  have "pages st1 = pages example_heap" "stdout_buffer st1 = stdout_buffer example_heap"
    "stdout_bufsize st1 = stdout_bufsize example_heap" "State.more st1 = State.more example_heap"
    by auto
  with o m have "st1 = example_heap\<lparr>stdout := [CHR 0x0A] @ ''FREE start: 0x1000, size: 0x10'' @ [CHR 0x0A] @
        ''BUSY start: 0x1028, size: 0x400'' @ [CHR 0x0A] @
        ''FREE start: 0x1440, size: 0x1000'' @ [CHR 0x0A] @
        ''FREE start: 0x2458, size: 0x20'' @ [CHR 0x0A]\<rparr>"
    by (intro State.equality) simp_all
  with p hl bc show ?thesis by simp
qed

text \<open>
  The claim as it is written covers the first walk too, and \<open>main\<close> makes it right after
  \<open>init_heap(0x10000)\<close>. Standard output has no buffer then, and \<open>printf\<close> takes one, 4096
  bytes, with the program's own \<open>malloc\<close>. The line of the first block has been formatted
  already: it reports a free block of \<open>0xFFE8\<close> bytes. After the walk that block is busy,
  has \<open>0x1000\<close> bytes and a successor, and the second walk prints another text.
\<close>

theorem print_heap_first_walk_counterexample:
  "init_heap 0x1000 0x10000 initial_state = Inr fresh_heap
   \<and> print_heap fresh_heap = Some (Inr after_walk)
   \<and> mem fresh_heap 0x1000 = \<lparr>size_B = 0xFFE8, free_B = True, next_B = NULL\<rparr>
   \<and> mem after_walk 0x1000 = \<lparr>size_B = 0x1000, free_B = False, next_B = 0x2018\<rparr>
   \<and> stdout after_walk = stdout fresh_heap
        @ ''FREE start: 0x1000, size: 0xFFE8'' @ [CHR 0x0A]
        @ ''FREE start: 0x2018, size: 0xEFD0'' @ [CHR 0x0A]
   \<and> print_heap after_walk = Some (Inr (after_walk\<lparr>stdout := stdout after_walk
        @ ''BUSY start: 0x1000, size: 0x1000'' @ [CHR 0x0A]
        @ ''FREE start: 0x2018, size: 0xEFD0'' @ [CHR 0x0A]\<rparr>))"
proof -
  have hl: "block_list (mem after_walk) (head_H (heap after_walk)) [0x1000, 0x2018]"
    "list_all (hdr_ok after_walk) [0x1000, 0x2018]"
    using heap_ok_list [OF after_walk_ok] by (simp_all add: heap_list_def)
  have sb: "stdout_buffer after_walk = Some 0x1018" by (simp add: after_walk_def)
  have 2: "print_heap after_walk = Some (Inr (after_walk\<lparr>stdout := stdout after_walk
        @ ''BUSY start: 0x1000, size: 0x1000'' @ [CHR 0x0A]
        @ ''FREE start: 0x2018, size: 0xEFD0'' @ [CHR 0x0A]\<rparr>))"
    unfolding print_heap_def print_loop_list [OF hl sb]
    by (simp add: after_walk_def fresh_heap_def format_line_def hexX.simps hex_digit_def)
  from init_fresh print_heap_fresh 2 show ?thesis
    by (simp add: after_walk_def fresh_heap_def initial_state_def)
qed

end
